theory Spec2Isabelle
  imports Complex_Main
begin

section \<open>MoneyMover: bank statement reconciliation against a MoneyLover wallet\<close>

text \<open>
  A shallow embedding of the decision logic of the \<^verbatim>\<open>money_mover\<close> package:
  the statement selector of \<^verbatim>\<open>ing_parser.py\<close>, the dedup, preset and transfer
  passes of \<^verbatim>\<open>moneymover.py\<close> and the category selector of \<^verbatim>\<open>prompts.py\<close>.
  Exceptions are values of \<open>py_error\<close> on the left of a sum, mutation of \<^verbatim>\<open>self\<close>
  is a returned state, \<^verbatim>\<open>input()\<close> reads from a list of pending lines, and the
  calls sent to the remote ledger are collected in a list.
\<close>


subsection \<open>Exceptions\<close>

datatype py_error =
    FileNotFoundError
  | ValueError
  | KeyError
  | IndexError
  | EOFError
  | UnboundLocalError
  | RegexError
  | MoneyLoverException

subsection \<open>Calendar dates (\<^verbatim>\<open>datetime\<close>)\<close>

text \<open>
  A \<^verbatim>\<open>datetime\<close> is its proleptic Gregorian day number (\<^verbatim>\<open>toordinal()\<close>) and the
  microseconds elapsed since midnight. The day number follows CPython's
  \<^verbatim>\<open>_ymd2ord\<close>.
\<close>

record datetime =
  ordinal :: int
  micros :: int

definition is_leap :: "int \<Rightarrow> bool" where
  "is_leap y = (y mod 4 = 0 \<and> (y mod 100 \<noteq> 0 \<or> y mod 400 = 0))"

definition days_in_month :: "int \<Rightarrow> int \<Rightarrow> int" where
  "days_in_month y m =
     (if m = 2 then (if is_leap y then 29 else 28)
      else if m = 4 \<or> m = 6 \<or> m = 9 \<or> m = 11 then 30 else 31)"

definition days_before_year :: "int \<Rightarrow> int" where
  "days_before_year y = (y - 1) * 365 + (y - 1) div 4 - (y - 1) div 100 + (y - 1) div 400"

definition days_before_month :: "int \<Rightarrow> int \<Rightarrow> int" where
  "days_before_month y m = sum_list (map (days_in_month y) [1..m - 1])"

definition ymd2ord :: "int \<Rightarrow> int \<Rightarrow> int \<Rightarrow> int" where
  "ymd2ord y m d = days_before_year y + days_before_month y m + d"

definition US_PER_DAY :: int where
  "US_PER_DAY = 86400000000"

text \<open>
  \<^verbatim>\<open>(a - b).days\<close>: a \<^verbatim>\<open>timedelta\<close> is normalised so that its seconds and
  microseconds are non-negative, which makes \<^verbatim>\<open>days\<close> the floor of the difference.
\<close>

definition sub_days :: "datetime \<Rightarrow> datetime \<Rightarrow> int" where
  "sub_days a b = ((ordinal a - ordinal b) * US_PER_DAY + (micros a - micros b)) div US_PER_DAY"

definition is_digit :: "char \<Rightarrow> bool" where
  "is_digit c = (48 \<le> (of_char c :: nat) \<and> (of_char c :: nat) \<le> 57)"

definition digit_val :: "char \<Rightarrow> int" where
  "digit_val c = int (of_char c) - 48"

text \<open>
  \<^verbatim>\<open>datetime.strptime(s, "%d-%m-%Y")\<close> on the strings the file pattern captures
  (two digits, a dash, two digits, a dash, four digits). The day must lie in
  \<open>01..31\<close> and the month in \<open>01..12\<close> for the format to match, and the date must
  exist in the calendar (year \<open>0000\<close> does not); otherwise \<^verbatim>\<open>ValueError\<close>. The
  result is the date at midnight. Characters are bytes here, so the non-ASCII
  digits that Python's \<^verbatim>\<open>\d\<close> also accepts are outside the model.
\<close>

definition strptime_dmy :: "string \<Rightarrow> py_error + datetime" where
  "strptime_dmy s =
     (case s of
        [d1, d2, p, m1, m2, q, y1, y2, y3, y4] \<Rightarrow>
          (if is_digit d1 \<and> is_digit d2 \<and> p = CHR ''-'' \<and> is_digit m1 \<and> is_digit m2 \<and>
              q = CHR ''-'' \<and> is_digit y1 \<and> is_digit y2 \<and> is_digit y3 \<and> is_digit y4
           then
             (let d = 10 * digit_val d1 + digit_val d2;
                  m = 10 * digit_val m1 + digit_val m2;
                  y = 1000 * digit_val y1 + 100 * digit_val y2 + 10 * digit_val y3 + digit_val y4
              in if 1 \<le> d \<and> d \<le> 31 \<and> 1 \<le> m \<and> m \<le> 12 \<and> 1 \<le> y \<and> d \<le> days_in_month y m
                 then Inr \<lparr>ordinal = ymd2ord y m d, micros = 0\<rparr>
                 else Inl ValueError)
           else Inl ValueError)
      | _ \<Rightarrow> Inl ValueError)"

subsection \<open>The statement selector (\<^verbatim>\<open>ing_parser.py\<close>)\<close>

text \<open>
  A successful \<^verbatim>\<open>re.match\<close> of the file pattern: the matched string and its three
  groups.
\<close>

record re_match =
  mstring :: string
  mgroups :: "string \<times> string \<times> string"

definition date_shape :: "string \<Rightarrow> bool" where
  "date_shape s =
     (case s of
        [d1, d2, p, m1, m2, q, y1, y2, y3, y4] \<Rightarrow>
          is_digit d1 \<and> is_digit d2 \<and> p = CHR ''-'' \<and> is_digit m1 \<and> is_digit m2 \<and>
          q = CHR ''-'' \<and> is_digit y1 \<and> is_digit y2 \<and> is_digit y3 \<and> is_digit y4
      | _ \<Rightarrow> False)"

text \<open>
  What must follow the first group: \<^verbatim>\<open>_(\d{2}-\d{2}-\d{4})_(\d{2}-\d{2}-\d{4})\<close>,
  with anything after it (\<^verbatim>\<open>re.match\<close> anchors the start only).
\<close>

definition tail_matches :: "string \<Rightarrow> bool" where
  "tail_matches s =
     (22 \<le> length s \<and> take 1 s = ''_'' \<and> date_shape (take 10 (drop 1 s)) \<and>
      take 1 (drop 11 s) = ''_'' \<and> date_shape (take 10 (drop 12 s)))"

text \<open>
  \<^verbatim>\<open>(.+)\<close> is greedy: the longest non-empty prefix without a newline that the rest
  of the pattern can follow wins, so the prefix lengths are tried downwards.
\<close>

fun try_split :: "string \<Rightarrow> nat \<Rightarrow> re_match option" where
  "try_split s 0 = None"
| "try_split s (Suc i) =
     (if CHR 0x0A \<notin> set (take (Suc i) s) \<and> tail_matches (drop (Suc i) s)
      then Some \<lparr>mstring = s,
                 mgroups = (take (Suc i) s, take 10 (drop (Suc i + 1) s),
                            take 10 (drop (Suc i + 12) s))\<rparr>
      else try_split s i)"

definition file_pattern_match :: "string \<Rightarrow> re_match option" where
  "file_pattern_match s = try_split s (length s)"

text \<open>
  The loop state of \<^verbatim>\<open>_find_closest_end_date_file\<close>: \<^verbatim>\<open>recent_file\<close>,
  \<^verbatim>\<open>closest_days_diff\<close> (\<open>None\<close> is \<^verbatim>\<open>float("inf")\<close>) and \<^verbatim>\<open>self.date_range\<close>.
\<close>

record sel_state =
  recent_file :: "string option"
  closest_days_diff :: "int option"
  date_range :: "(datetime \<times> datetime) option"

definition lt_inf :: "int \<Rightarrow> int option \<Rightarrow> bool" where
  "lt_inf d c = (case c of None \<Rightarrow> True | Some c' \<Rightarrow> d < c')"

fun closest_loop :: "datetime \<Rightarrow> re_match option list \<Rightarrow> sel_state \<Rightarrow> py_error + sel_state" where
  "closest_loop today [] st = Inr st"
| "closest_loop today (None # ms) st = closest_loop today ms st"
| "closest_loop today (Some m # ms) st =
     (case mgroups m of (ident, start_s, end_s) \<Rightarrow>
        (case strptime_dmy end_s of
           Inl e \<Rightarrow> Inl e
         | Inr end_date \<Rightarrow>
             (case strptime_dmy start_s of
                Inl e \<Rightarrow> Inl e
              | Inr start_date \<Rightarrow>
                  (let days_diff = sub_days today end_date in
                   if lt_inf days_diff (closest_days_diff st)
                   then closest_loop today ms
                          \<lparr>recent_file = Some (mstring m),
                           closest_days_diff = Some days_diff,
                           date_range = Some (start_date, end_date)\<rparr>
                   else closest_loop today ms st))))"

definition init_state :: sel_state where
  "init_state = \<lparr>recent_file = None, closest_days_diff = None, date_range = None\<rparr>"

definition find_closest_end_date_file ::
  "datetime \<Rightarrow> re_match option list \<Rightarrow> py_error + (string \<times> (datetime \<times> datetime) option)" where
  "find_closest_end_date_file today file_match =
     (case closest_loop today file_match init_state of
        Inl e \<Rightarrow> Inl e
      | Inr st \<Rightarrow>
          (case recent_file st of
             Some f \<Rightarrow> Inr (f, date_range st)
           | None \<Rightarrow> Inl FileNotFoundError))"

text \<open>
  \<^verbatim>\<open>_find_statement\<close>: \<open>csv_files\<close> are the names \<^verbatim>\<open>root_path.glob("*.csv")\<close>
  lists, in listing order. The result is \<^verbatim>\<open>_recent_bank_statement\<close> (the folder
  joined with the chosen name) and \<^verbatim>\<open>date_range\<close>.
\<close>

definition find_statement ::
  "datetime \<Rightarrow> string \<Rightarrow> string list \<Rightarrow>
     py_error + ((string \<times> string) \<times> (datetime \<times> datetime) option)" where
  "find_statement today root_path csv_files =
     (let file_matches = map file_pattern_match csv_files in
      case find_closest_end_date_file today file_matches of
        Inl e \<Rightarrow> Inl e
      | Inr (f, dr) \<Rightarrow> Inr ((root_path, f), dr))"

text \<open>
  The two date groups of a match, and whether both parse. The loop parses every
  match it meets, so one match with an impossible date stops the whole search.
\<close>

definition end_str :: "re_match \<Rightarrow> string" where
  "end_str m = snd (snd (mgroups m))"

definition start_str :: "re_match \<Rightarrow> string" where
  "start_str m = fst (snd (mgroups m))"

definition valid_dates :: "re_match \<Rightarrow> bool" where
  "valid_dates m = (\<not> isl (strptime_dmy (end_str m)) \<and> \<not> isl (strptime_dmy (start_str m)))"

text \<open>
  The two ways the loop can leave a state: untouched (\<open>kept\<close>), or overwritten by
  a match that is strictly below the incoming difference, at most every other
  difference and strictly below those before it (\<open>chosen\<close>).
\<close>

definition kept :: "datetime \<Rightarrow> re_match option list \<Rightarrow> sel_state \<Rightarrow> sel_state \<Rightarrow> bool" where
  "kept today ms st st' =
     (st' = st \<and>
      (\<forall>m ed. Some m \<in> set ms \<longrightarrow> strptime_dmy (end_str m) = Inr ed \<longrightarrow>
         \<not> lt_inf (sub_days today ed) (closest_days_diff st)))"

definition chosen ::
  "datetime \<Rightarrow> re_match option list \<Rightarrow> sel_state \<Rightarrow> sel_state \<Rightarrow> bool" where
  "chosen today ms st st' =
     (\<exists>pre m post sd ed.
        ms = pre @ Some m # post \<and>
        strptime_dmy (start_str m) = Inr sd \<and> strptime_dmy (end_str m) = Inr ed \<and>
        st' = \<lparr>recent_file = Some (mstring m),
               closest_days_diff = Some (sub_days today ed),
               date_range = Some (sd, ed)\<rparr> \<and>
        lt_inf (sub_days today ed) (closest_days_diff st) \<and>
        (\<forall>m' ed'. Some m' \<in> set ms \<longrightarrow> strptime_dmy (end_str m') = Inr ed' \<longrightarrow>
           sub_days today ed \<le> sub_days today ed') \<and>
        (\<forall>m' ed'. Some m' \<in> set pre \<longrightarrow> strptime_dmy (end_str m') = Inr ed' \<longrightarrow>
           sub_days today ed < sub_days today ed'))"

text \<open>Sample data: noon of 10 April 2024 and two statement files.\<close>

definition noon_10_april_2024 :: datetime where
  "noon_10_april_2024 = \<lparr>ordinal = ymd2ord 2024 4 10, micros = 43200000000\<rparr>"

definition january_match :: re_match where
  "january_match = \<lparr>mstring = ''a_01-01-2024_31-01-2024.csv'',
                     mgroups = (''a'', ''01-01-2024'', ''31-01-2024'')\<rparr>"

definition march_match :: re_match where
  "march_match = \<lparr>mstring = ''a_01-03-2024_30-03-2024.csv'',
                   mgroups = (''a'', ''01-03-2024'', ''30-03-2024'')\<rparr>"

subsection \<open>Table cells and Python's view of them\<close>

text \<open>
  A value held in a \<^verbatim>\<open>pandas\<close> table: a string, an integer, a finite float, a
  timestamp (as a count of time units), a boolean, or the missing value
  (\<^verbatim>\<open>NaN\<close>, \<^verbatim>\<open>None\<close>, \<^verbatim>\<open>NaT\<close>).
\<close>

datatype cell = StrV string | IntV int | FltV real | TsV int | BoolV bool | NaN

fun num_val :: "cell \<Rightarrow> real option" where
  "num_val (IntV i) = Some (of_int i)"
| "num_val (FltV x) = Some x"
| "num_val (BoolV b) = Some (if b then 1 else 0)"
| "num_val (StrV s) = None"
| "num_val (TsV t) = None"
| "num_val NaN = None"

text \<open>
  Element-wise \<^verbatim>\<open>==\<close>: numbers compare by value across \<^verbatim>\<open>int\<close>, \<^verbatim>\<open>float\<close> and
  \<^verbatim>\<open>bool\<close>, strings with strings, timestamps with timestamps; values of different
  kinds are unequal, and the missing value equals nothing, itself included.
\<close>

fun py_eq :: "cell \<Rightarrow> cell \<Rightarrow> bool" where
  "py_eq (StrV s) (StrV t) = (s = t)"
| "py_eq (TsV s) (TsV t) = (s = t)"
| "py_eq a b = (case (num_val a, num_val b) of (Some x, Some y) \<Rightarrow> x = y | _ \<Rightarrow> False)"

text \<open>
  \<^verbatim>\<open>Series.isin\<close> looks values up in a hash table, where a missing value finds a
  missing value.
\<close>

definition isin_eq :: "cell \<Rightarrow> cell \<Rightarrow> bool" where
  "isin_eq a b = (py_eq a b \<or> (a = NaN \<and> b = NaN))"

definition isin :: "cell \<Rightarrow> cell list \<Rightarrow> bool" where
  "isin a vs = list_ex (isin_eq a) vs"

text \<open>Truth value of a cell, as \<^verbatim>\<open>if x:\<close> takes it (\<^verbatim>\<open>nan\<close> is a non-zero float).\<close>

fun truthy :: "cell \<Rightarrow> bool" where
  "truthy (StrV s) = (s \<noteq> [])"
| "truthy (IntV i) = (i \<noteq> 0)"
| "truthy (FltV x) = (x \<noteq> 0)"
| "truthy (TsV t) = True"
| "truthy (BoolV b) = b"
| "truthy NaN = True"

definition digit_char :: "nat \<Rightarrow> char" where
  "digit_char n = char_of (48 + n)"

fun str_nat :: "nat \<Rightarrow> string" where
  "str_nat n = (if n < 10 then [digit_char n] else str_nat (n div 10) @ [digit_char (n mod 10)])"

definition str_int :: "int \<Rightarrow> string" where
  "str_int i = (if i < 0 then CHR ''-'' # str_nat (nat (- i)) else str_nat (nat i))"

text \<open>
  The two library functions the engine calls on cell contents are parameters of the
  model: \<open>str_other\<close> is \<^verbatim>\<open>str\<close> on floats and timestamps, and \<open>re_match_ic p s\<close> says
  whether \<^verbatim>\<open>re.match(p, s, re.IGNORECASE)\<close> finds a match at the start of \<open>s\<close>
  (\<open>Inl RegexError\<close>: the pattern does not compile, \<^verbatim>\<open>re.error\<close>).
\<close>

record builtins =
  str_other :: "cell \<Rightarrow> string"
  re_match_ic :: "string \<Rightarrow> string \<Rightarrow> py_error + bool"

fun py_str :: "builtins \<Rightarrow> cell \<Rightarrow> string" where
  "py_str py (StrV s) = s"
| "py_str py (IntV i) = str_int i"
| "py_str py (BoolV b) = (if b then ''True'' else ''False'')"
| "py_str py NaN = ''nan''"
| "py_str py (FltV x) = str_other py (FltV x)"
| "py_str py (TsV t) = str_other py (TsV t)"

definition lower_char :: "char \<Rightarrow> char" where
  "lower_char c =
     (if 65 \<le> (of_char c :: nat) \<and> (of_char c :: nat) \<le> 90 then char_of ((of_char c :: nat) + 32)
      else c)"

definition lower :: "string \<Rightarrow> string" where
  "lower s = map lower_char s"

text \<open>
  \<^verbatim>\<open>str.isdigit\<close> and \<^verbatim>\<open>int\<close> on a line of input (bytes: ASCII digits only).
\<close>

definition isdigit :: "string \<Rightarrow> bool" where
  "isdigit s = (s \<noteq> [] \<and> list_all is_digit s)"

definition int_of_str :: "string \<Rightarrow> nat" where
  "int_of_str s = foldl (\<lambda>acc c. 10 * acc + nat (digit_val c)) 0 s"

subsection \<open>Tables\<close>

text \<open>
  A row of \<^verbatim>\<open>bank_statement.transactions\<close>. \<^verbatim>\<open>_parse_statement\<close> reads the file
  with \<^verbatim>\<open>names=COLUMNS\<close>, so the nine columns are always there; the columns the
  passes add later (\<^verbatim>\<open>is_in_ml\<close>, \<^verbatim>\<open>has_preset\<close>, \<^verbatim>\<open>note\<close>, \<^verbatim>\<open>category_name\<close>,
  \<^verbatim>\<open>type\<close>) live in \<open>b_extra\<close>.
\<close>

record bank_transaction =
  b_date :: cell
  b_name :: cell
  b_account :: cell
  b_counterparty :: cell
  b_code :: cell
  b_debit_credit :: cell
  b_amount :: cell
  b_transaction_type :: cell
  b_notifications :: cell
  b_extra :: "string \<rightharpoonup> cell"

text \<open>\<^verbatim>\<open>row[column]\<close>: \<open>None\<close> stands for \<^verbatim>\<open>KeyError\<close>.\<close>

definition series_item :: "bank_transaction \<Rightarrow> string \<Rightarrow> cell option" where
  "series_item r c =
     (if c = ''date'' then Some (b_date r)
      else if c = ''name'' then Some (b_name r)
      else if c = ''account'' then Some (b_account r)
      else if c = ''counterparty'' then Some (b_counterparty r)
      else if c = ''code'' then Some (b_code r)
      else if c = ''debit/credit'' then Some (b_debit_credit r)
      else if c = ''amount'' then Some (b_amount r)
      else if c = ''transaction type'' then Some (b_transaction_type r)
      else if c = ''notifications'' then Some (b_notifications r)
      else b_extra r c)"

text \<open>\<^verbatim>\<open>row.get(column, default)\<close>.\<close>

definition series_get :: "bank_transaction \<Rightarrow> string \<Rightarrow> cell \<Rightarrow> cell" where
  "series_get r c d = (case series_item r c of None \<Rightarrow> d | Some v \<Rightarrow> v)"

definition set_col :: "bank_transaction \<Rightarrow> string \<Rightarrow> cell \<Rightarrow> bank_transaction" where
  "set_col r c v = r\<lparr>b_extra := (b_extra r)(c \<mapsto> v)\<rparr>"

text \<open>A boolean column read as a mask.\<close>

definition flag :: "bank_transaction \<Rightarrow> string \<Rightarrow> bool" where
  "flag r c = (b_extra r c = Some (BoolV True))"

text \<open>A row of \<^verbatim>\<open>ml_transactions\<close>, as \<^verbatim>\<open>_format_transactions\<close> builds it.\<close>

record ml_transaction =
  ml_note :: cell
  ml_amount :: cell
  ml_date :: cell
  ml_category :: cell

text \<open>
  A row of the categories table (\<^verbatim>\<open>load_categories\<close> keeps these six columns;
  \<open>c_id\<close> is the column \<^verbatim>\<open>_id\<close>).
\<close>

record category =
  c_wallet_id :: cell
  c_wallet_name :: cell
  c_type :: cell
  c_name :: cell
  c_id :: cell
  c_parent :: cell

text \<open>
  A preset as the presets file declares it: the conditions in the order of the JSON
  object, and a label with its three entries.
\<close>

record preset_label =
  l_note :: cell
  l_category_name :: cell
  l_type :: cell

record preset =
  conditions :: "(string \<times> string) list"
  label :: preset_label

subsection \<open>The dedup pass (\<^verbatim>\<open>_check_if_already_added\<close>)\<close>

definition check_if_already_added ::
  "ml_transaction list \<Rightarrow> bank_transaction list \<Rightarrow> bank_transaction list" where
  "check_if_already_added ml_transactions bank_transactions =
     (if ml_transactions = []
      then map (\<lambda>r. set_col r ''is_in_ml'' (BoolV False)) bank_transactions
      else
        map (\<lambda>r.
               let is_same_amount = isin (b_amount r) (map ml_amount ml_transactions);
                   is_same_date = isin (b_date r) (map ml_date ml_transactions)
               in set_col r ''is_in_ml'' (BoolV (is_same_amount \<and> is_same_date)))
            bank_transactions)"

subsection \<open>The preset pass (\<^verbatim>\<open>_is_preset_matched\<close>, \<^verbatim>\<open>_compare_to_presets\<close>)\<close>

text \<open>
  The loop over \<^verbatim>\<open>conditions.items()\<close>: the first condition that finds no match
  returns \<^verbatim>\<open>False\<close> at once, so later patterns are not even compiled.
\<close>

fun conditions_hold ::
  "builtins \<Rightarrow> bank_transaction \<Rightarrow> (string \<times> string) list \<Rightarrow> py_error + bool" where
  "conditions_hold py bank_transaction [] = Inr True"
| "conditions_hold py bank_transaction ((column, substring) # rest) =
     (let transaction_value = py_str py (series_get bank_transaction column (StrV [])) in
      case re_match_ic py substring transaction_value of
        Inl e \<Rightarrow> Inl e
      | Inr found \<Rightarrow>
          if \<not> found then Inr False else conditions_hold py bank_transaction rest)"

definition is_preset_matched :: "builtins \<Rightarrow> bank_transaction \<Rightarrow> preset \<Rightarrow> py_error + bool" where
  "is_preset_matched py bank_transaction p = conditions_hold py bank_transaction (conditions p)"

text \<open>
  The inner loop over \<^verbatim>\<open>self.transaction_presets\<close> with its \<^verbatim>\<open>break\<close>: the preset
  whose label is written, if any.
\<close>

fun first_matching_preset ::
  "builtins \<Rightarrow> bank_transaction \<Rightarrow> preset list \<Rightarrow> py_error + preset option" where
  "first_matching_preset py bank_transaction [] = Inr None"
| "first_matching_preset py bank_transaction (p # ps) =
     (case is_preset_matched py bank_transaction p of
        Inl e \<Rightarrow> Inl e
      | Inr matched \<Rightarrow>
          if matched then Inr (Some p) else first_matching_preset py bank_transaction ps)"

definition write_label :: "bank_transaction \<Rightarrow> preset \<Rightarrow> bank_transaction" where
  "write_label r p =
     set_col (set_col (set_col (set_col r ''has_preset'' (BoolV True))
                ''note'' (l_note (label p)))
                ''category_name'' (l_category_name (label p)))
                ''type'' (l_type (label p))"

text \<open>
  The outer loop. \<^verbatim>\<open>iterrows\<close> hands out the rows as they were when the loop
  started, so every row is matched on its own.
\<close>

fun preset_rows ::
  "builtins \<Rightarrow> preset list \<Rightarrow> bank_transaction list \<Rightarrow> py_error + bank_transaction list" where
  "preset_rows py presets [] = Inr []"
| "preset_rows py presets (r # rs) =
     (case first_matching_preset py r presets of
        Inl e \<Rightarrow> Inl e
      | Inr found \<Rightarrow>
          (case preset_rows py presets rs of
             Inl e \<Rightarrow> Inl e
           | Inr rs' \<Rightarrow>
               Inr ((case found of None \<Rightarrow> r | Some p \<Rightarrow> write_label r p) # rs')))"

text \<open>
  Writing a label with \<^verbatim>\<open>.at\<close> creates the column when the table does not have it
  yet; the rows that were not written then hold the missing value there.
\<close>

definition fill_column :: "string \<Rightarrow> bank_transaction list \<Rightarrow> bank_transaction list" where
  "fill_column c rows =
     (if list_ex (\<lambda>r. b_extra r c \<noteq> None) rows
      then map (\<lambda>r. if b_extra r c = None then set_col r c NaN else r) rows
      else rows)"

definition compare_to_presets ::
  "builtins \<Rightarrow> preset list \<Rightarrow> bank_transaction list \<Rightarrow> py_error + bank_transaction list" where
  "compare_to_presets py presets transactions_df =
     (let df = map (\<lambda>r. set_col r ''has_preset'' (BoolV False)) transactions_df in
      case preset_rows py presets df of
        Inl e \<Rightarrow> Inl e
      | Inr rows \<Rightarrow> Inr (fill_column ''type'' (fill_column ''category_name'' (fill_column ''note'' rows))))"

text \<open>
  Sample data: a matcher for patterns without metacharacters (such a pattern matches
  exactly when it is a prefix of the text, letter case aside), one bank row, two
  ledger rows and two presets.
\<close>

definition literal_match_ic :: "string \<Rightarrow> string \<Rightarrow> py_error + bool" where
  "literal_match_ic p s = Inr (take (length p) (lower s) = lower p)"

definition sample_py :: builtins where
  "sample_py = \<lparr>str_other = (\<lambda>c. ''?''), re_match_ic = literal_match_ic\<rparr>"

definition coffee_row :: bank_transaction where
  "coffee_row =
     \<lparr>b_date = TsV 20240305, b_name = StrV ''Coffee Corner Utrecht'', b_account = StrV ''NL55'',
      b_counterparty = NaN, b_code = StrV ''BA'', b_debit_credit = StrV ''Debit'',
      b_amount = FltV (-25/2), b_transaction_type = StrV ''Payment terminal'',
      b_notifications = StrV ''Card 1234'', b_extra = Map.empty\<rparr>"

definition same_amount_row :: ml_transaction where
  "same_amount_row =
     \<lparr>ml_note = StrV ''books'', ml_amount = FltV (-25/2), ml_date = TsV 20240301,
      ml_category = StrV ''Education''\<rparr>"

definition same_date_row :: ml_transaction where
  "same_date_row =
     \<lparr>ml_note = StrV ''rent'', ml_amount = FltV (-900), ml_date = TsV 20240305,
      ml_category = StrV ''Bills''\<rparr>"

definition coffee_preset :: preset where
  "coffee_preset =
     \<lparr>conditions = [(''name'', ''coffee''), (''debit/credit'', ''debit'')],
      label = \<lparr>l_note = StrV ''Coffee'', l_category_name = StrV ''Food'', l_type = StrV ''expense''\<rparr>\<rparr>"

definition card_preset :: preset where
  "card_preset =
     \<lparr>conditions = [(''notifications'', ''card''), (''missing column'', '''')],
      label = \<lparr>l_note = StrV ''Card payment'', l_category_name = StrV ''Other'',
               l_type = StrV ''expense''\<rparr>\<rparr>"

subsection \<open>The world outside: terminal and remote ledger\<close>

text \<open>
  The keyword arguments of one \<^verbatim>\<open>add_transaction\<close> call.
\<close>

record payload =
  p_wallet_id :: cell
  p_category_id :: cell
  p_amount :: cell
  p_date :: cell
  p_note :: cell

text \<open>
  What \<^verbatim>\<open>moneymover.py\<close> prints, one constructor per \<^verbatim>\<open>print\<close> call with the values
  it formats:
  \<^item> \<open>IdMatches n name\<close>: \<^verbatim>\<open>"{n} id matches for the  name {name}."\<close>
  \<^item> \<open>NotValidName category\<close>: \<^verbatim>\<open>"{category} is not a valid name for the category"\<close>
  \<^item> \<open>RowAdded idx note amount\<close>: \<^verbatim>\<open>"Row {idx}: {note}:  {amount} - Added to Moneylover"\<close>
  \<^item> \<open>TransactionAdded\<close>: \<^verbatim>\<open>"Transaction added"\<close>

  The menus and report lines that \<^verbatim>\<open>prompts.py\<close> renders are not part of the model.
\<close>

datatype printed =
    IdMatches nat cell
  | NotValidName cell
  | RowAdded nat cell cell
  | TransactionAdded

text \<open>
  The state around a run: the lines \<^verbatim>\<open>input()\<close> will still return (none left:
  \<^verbatim>\<open>EOFError\<close>), what was printed, and the \<^verbatim>\<open>add_transaction\<close> calls made. An
  exception leaves this state as it was when it was raised.
\<close>

record world =
  stdin :: "string list"
  stdout :: "printed list"
  posted :: "payload list"

text \<open>
  The remote ledger: what \<^verbatim>\<open>request_transactions\<close> stores in \<^verbatim>\<open>ml_transactions\<close> for
  the statement's date range, and the exception, if any, with which an
  \<^verbatim>\<open>add_transaction\<close> call ends.
\<close>

record remote =
  list_transactions :: "py_error + ml_transaction list"
  add_result :: "payload \<Rightarrow> py_error option"

text \<open>
  The fields of \<^verbatim>\<open>MoneyMover\<close> the transfer reads: the presets, the active wallet, its
  categories, the contents of \<^verbatim>\<open>categories.csv\<close> (which \<^verbatim>\<open>_get_category_id\<close> reads
  anew on every call) and \<^verbatim>\<open>bank_statement.transactions\<close>.
\<close>

record money_mover =
  mm_presets :: "preset list"
  mm_wallet_id :: cell
  mm_wallet_categories :: "category list"
  mm_categories_file :: "category list"
  mm_bank :: "bank_transaction list"

definition input_line :: "world \<Rightarrow> (py_error + string) \<times> world" where
  "input_line w =
     (case stdin w of
        [] \<Rightarrow> (Inl EOFError, w)
      | l # ls \<Rightarrow> (Inr l, w\<lparr>stdin := ls\<rparr>))"

text \<open>A prompt loop, written over the pending lines, run in a world.\<close>

definition on_stdin :: "(string list \<Rightarrow> 'a \<times> string list) \<Rightarrow> world \<Rightarrow> 'a \<times> world" where
  "on_stdin f w = (case f (stdin w) of (r, rest) \<Rightarrow> (r, w\<lparr>stdin := rest\<rparr>))"

definition add_transaction :: "remote \<Rightarrow> payload \<Rightarrow> world \<Rightarrow> (py_error + unit) \<times> world" where
  "add_transaction rem p w =
     (let w' = w\<lparr>posted := posted w @ [p]\<rparr> in
      case add_result rem p of
        Some e \<Rightarrow> (Inl e, w')
      | None \<Rightarrow> (Inr (), w'))"

subsection \<open>Category-id resolution and payloads (\<^verbatim>\<open>moneymover.py\<close>)\<close>

text \<open>The three masks of \<^verbatim>\<open>_get_category_id\<close>, and-ed.\<close>

definition category_matches :: "money_mover \<Rightarrow> cell \<Rightarrow> cell \<Rightarrow> category \<Rightarrow> bool" where
  "category_matches mm category_name category_type c =
     (py_eq (c_wallet_id c) (mm_wallet_id mm) \<and> py_eq (c_name c) category_name \<and>
      py_eq (c_type c) category_type)"

text \<open>
  \<^verbatim>\<open>_get_category_id\<close>. No row: \<^verbatim>\<open>ValueError("No matching category found for
  ...")\<close>. More than one row: a line is printed and the first row is used.
\<close>

definition get_category_id ::
  "money_mover \<Rightarrow> cell \<Rightarrow> cell \<Rightarrow> world \<Rightarrow> (py_error + cell) \<times> world" where
  "get_category_id mm category_name category_type w =
     (case filter (category_matches mm category_name category_type) (mm_categories_file mm) of
        [] \<Rightarrow> (Inl ValueError, w)
      | c # cs \<Rightarrow>
          (Inr (c_id c),
           if length (c # cs) > 1
           then w\<lparr>stdout := stdout w @ [IdMatches (length (c # cs)) category_name]\<rparr>
           else w))"

definition create_payload ::
  "money_mover \<Rightarrow> cell \<Rightarrow> bank_transaction \<Rightarrow> cell \<Rightarrow> payload" where
  "create_payload mm category_id bank_transaction note =
     \<lparr>p_wallet_id = mm_wallet_id mm, p_category_id = category_id,
      p_amount = b_amount bank_transaction, p_date = b_date bank_transaction, p_note = note\<rparr>"

text \<open>
  \<^verbatim>\<open>_create_payload_from_preset\<close>. The \<^verbatim>\<open>try\<close> block reads the two label columns and
  resolves the id; its handler is \<^verbatim>\<open>except KeyError\<close>:
  \<^item> a row without a \<^verbatim>\<open>category_name\<close> column raises \<^verbatim>\<open>KeyError\<close> before
    \<^verbatim>\<open>category\<close> is bound, so the handler's own \<^verbatim>\<open>print\<close> raises
    \<^verbatim>\<open>UnboundLocalError\<close>;
  \<^item> a row without a \<^verbatim>\<open>type\<close> column raises \<^verbatim>\<open>KeyError\<close>: the handler prints the
    category and raises \<^verbatim>\<open>KeyError\<close> again;
  \<^item> the \<^verbatim>\<open>ValueError\<close> of \<^verbatim>\<open>_get_category_id\<close> is not a \<^verbatim>\<open>KeyError\<close>: it passes
    through the handler untouched.

  The note is read after the \<^verbatim>\<open>try\<close> block.
\<close>

definition create_payload_from_preset ::
  "money_mover \<Rightarrow> bank_transaction \<Rightarrow> world \<Rightarrow> (py_error + payload) \<times> world" where
  "create_payload_from_preset mm bank_transaction w =
     (case series_item bank_transaction ''category_name'' of
        None \<Rightarrow> (Inl UnboundLocalError, w)
      | Some category \<Rightarrow>
          (case series_item bank_transaction ''type'' of
             None \<Rightarrow> (Inl KeyError, w\<lparr>stdout := stdout w @ [NotValidName category]\<rparr>)
           | Some category_type \<Rightarrow>
               (case get_category_id mm category category_type w of
                  (Inl e, w') \<Rightarrow> (Inl e, w')
                | (Inr category_id, w') \<Rightarrow>
                    (case series_item bank_transaction ''note'' of
                       None \<Rightarrow> (Inl KeyError, w')
                     | Some note \<Rightarrow>
                         (Inr (create_payload mm category_id bank_transaction note), w')))))"

text \<open>
  \<^verbatim>\<open>_transfer_from_presets\<close>: the rows with their index labels, in table order. Nothing
  catches an exception inside the loop.
\<close>

fun transfer_from_presets ::
  "money_mover \<Rightarrow> remote \<Rightarrow> (nat \<times> bank_transaction) list \<Rightarrow> world \<Rightarrow>
     (py_error + unit) \<times> world" where
  "transfer_from_presets mm rem [] w = (Inr (), w)"
| "transfer_from_presets mm rem ((idx, transaction) # rest) w =
     (case create_payload_from_preset mm transaction w of
        (Inl e, w') \<Rightarrow> (Inl e, w')
      | (Inr p, w') \<Rightarrow>
          (case add_transaction rem p w' of
             (Inl e, w'') \<Rightarrow> (Inl e, w'')
           | (Inr u, w'') \<Rightarrow>
               transfer_from_presets mm rem rest
                 (w''\<lparr>stdout := stdout w'' @ [RowAdded idx (p_note p) (p_amount p)]\<rparr>)))"

subsection \<open>Prompts (\<^verbatim>\<open>prompts.py\<close>)\<close>

text \<open>
  The \<^verbatim>\<open>(y/n)\<close> loop of \<^verbatim>\<open>prompt_adding\<close> and \<^verbatim>\<open>promt_manual_entry\<close>: any other
  answer asks again.
\<close>

fun yes_no :: "string list \<Rightarrow> (py_error + bool) \<times> string list" where
  "yes_no [] = (Inl EOFError, [])"
| "yes_no (ans # rest) =
     (if ans = ''y'' then (Inr True, rest)
      else if ans = ''n'' then (Inr False, rest)
      else yes_no rest)"

definition prompt_adding ::
  "(nat \<times> bank_transaction) list \<Rightarrow> world \<Rightarrow> (py_error + bool) \<times> world" where
  "prompt_adding transactions w =
     (if transactions = [] then (Inr False, w) else on_stdin yes_no w)"

text \<open>
  \<^verbatim>\<open>promt_manual_entry\<close> falls out of its \<^verbatim>\<open>while\<close> loop with \<^verbatim>\<open>None\<close> when the table
  is empty; the caller only tests its truth value.
\<close>

definition promt_manual_entry ::
  "(nat \<times> bank_transaction) list \<Rightarrow> world \<Rightarrow> (py_error + bool) \<times> world" where
  "promt_manual_entry bank_transactions w =
     (if bank_transactions = [] then (Inr False, w) else on_stdin yes_no w)"

definition TRANSACTION_TYPES :: "(string \<times> string) list" where
  "TRANSACTION_TYPES = [(''d'', ''debt/loan''), (''i'', ''income''), (''e'', ''expense'')]"

fun choose_transaction_type :: "string list \<Rightarrow> (py_error + string option) \<times> string list" where
  "choose_transaction_type [] = (Inl EOFError, [])"
| "choose_transaction_type (user_input # rest) =
     (if user_input = ''s'' then (Inr None, rest)
      else
        (case map_of TRANSACTION_TYPES user_input of
           Some transaction_type \<Rightarrow> (Inr (Some transaction_type), rest)
         | None \<Rightarrow> choose_transaction_type rest))"

subsection \<open>The category selector (\<^verbatim>\<open>CategorySelector\<close>)\<close>

text \<open>
  \<^verbatim>\<open>drop_duplicates\<close>: the first row of every key stays. Keys are compared as
  \<^verbatim>\<open>pandas\<close> hashes them (\<open>isin_eq\<close>).
\<close>

fun drop_duplicates_by :: "('a \<Rightarrow> cell) \<Rightarrow> 'a list \<Rightarrow> 'a list" where
  "drop_duplicates_by f [] = []"
| "drop_duplicates_by f (x # xs) =
     x # drop_duplicates_by f (filter (\<lambda>y. \<not> isin_eq (f y) (f x)) xs)"

text \<open>
  \<^verbatim>\<open>parent_categories\<close>: the rows without a parent, in table order. The count of
  sub-categories that \<^verbatim>\<open>_count_subcategories\<close> merges in is only displayed.
\<close>

definition parent_categories :: "category list \<Rightarrow> category list" where
  "parent_categories cats = filter (\<lambda>c. c_parent c = NaN) cats"

text \<open>
  \<^verbatim>\<open>_get_children\<close>. \<^verbatim>\<open>.iloc[0]\<close> on an empty selection raises \<^verbatim>\<open>IndexError\<close>. The id
  of the parent goes through \<^verbatim>\<open>str\<close>; the \<^verbatim>\<open>parent\<close> column is compared as it is.
\<close>

definition get_children :: "builtins \<Rightarrow> category list \<Rightarrow> cell \<Rightarrow> py_error + cell list" where
  "get_children py cats parent_category =
     (case filter (\<lambda>c. py_eq (c_name c) parent_category) cats of
        [] \<Rightarrow> Inl IndexError
      | p # ps \<Rightarrow>
          (let parent_id = c_id p;
               children = filter (\<lambda>c. py_eq (c_parent c) (StrV (py_str py parent_id))) cats
           in Inr (drop_duplicates_by id (map c_name children))))"

text \<open>
  \<^verbatim>\<open>_select_subcategory\<close>: the value returned and \<^verbatim>\<open>self.selected_category\<close>
  afterwards. A number out of range, like any other unknown input, asks again.
\<close>

fun select_subcategory ::
  "cell list \<Rightarrow> cell option \<Rightarrow> string list \<Rightarrow>
     (py_error + cell option \<times> cell option) \<times> string list" where
  "select_subcategory subcategories sel [] = (Inl EOFError, [])"
| "select_subcategory subcategories sel (user_input # rest) =
     (if isdigit user_input then
        (let selected_index = int_of_str user_input in
         if selected_index < length subcategories
         then (Inr (Some (subcategories ! selected_index), Some (subcategories ! selected_index)),
               rest)
         else select_subcategory subcategories sel rest)
      else if lower user_input = ''b'' then (Inr (None, sel), rest)
      else if user_input = [] then (Inr (sel, sel), rest)
      else select_subcategory subcategories sel rest)"

text \<open>
  \<^verbatim>\<open>_category_selected\<close>: whether the selection is over, and \<^verbatim>\<open>self.selected_category\<close>
  afterwards. The result of \<^verbatim>\<open>_select_subcategory\<close> is tested for its truth value.
\<close>

definition category_selected ::
  "builtins \<Rightarrow> category list \<Rightarrow> cell option \<Rightarrow> string list \<Rightarrow>
     (py_error + bool \<times> cell option) \<times> string list" where
  "category_selected py cats sel ins =
     (case ins of
        [] \<Rightarrow> (Inl EOFError, [])
      | user_input # rest \<Rightarrow>
          if isdigit user_input then
            (let selected_index = int_of_str user_input;
                 parents = parent_categories cats
             in if selected_index < length parents then
                  (let selected = c_name (parents ! selected_index) in
                   case get_children py cats selected of
                     Inl e \<Rightarrow> (Inl e, rest)
                   | Inr subcategories \<Rightarrow>
                       if subcategories = [] then (Inr (True, Some selected), rest)
                       else
                         (case select_subcategory subcategories (Some selected) rest of
                            (Inl e, rest') \<Rightarrow> (Inl e, rest')
                          | (Inr (res, sel'), rest') \<Rightarrow>
                              (Inr ((case res of None \<Rightarrow> False | Some v \<Rightarrow> truthy v), sel'),
                               rest')))
                else (Inr (False, sel), rest))
          else if lower user_input = ''s'' then (Inr (True, None), rest)
          else (Inr (False, sel), rest))"

lemma select_subcategory_consumes:
  "select_subcategory subcategories sel ins = (r, rest) \<Longrightarrow> length rest \<le> length ins"
  by (induction subcategories sel ins rule: select_subcategory.induct)
     (auto simp: Let_def split: if_splits)

lemma category_selected_consumes:
  "category_selected py cats sel ins = (Inr x, rest) \<Longrightarrow> length rest < length ins"
  by (auto simp: category_selected_def Let_def
           split: list.splits if_splits sum.splits prod.splits
           dest: select_subcategory_consumes)

text \<open>
  \<^verbatim>\<open>run\<close>: the \<^verbatim>\<open>while True\<close> loop around \<^verbatim>\<open>_category_selected\<close>. Every round reads at
  least one line, so on a finite input the loop ends, if only in \<^verbatim>\<open>EOFError\<close>.
\<close>

function run_loop ::
  "builtins \<Rightarrow> category list \<Rightarrow> cell option \<Rightarrow> string list \<Rightarrow>
     (py_error + cell option) \<times> string list" where
  "run_loop py cats sel ins =
     (case category_selected py cats sel ins of
        (Inl e, rest) \<Rightarrow> (Inl e, rest)
      | (Inr (finished, sel'), rest) \<Rightarrow>
          if finished then (Inr sel', rest) else run_loop py cats sel' rest)"
  by pat_completeness auto
termination
  by (relation "measure (\<lambda>(py, cats, sel, ins). length ins)")
     (auto dest: category_selected_consumes [OF sym])

text \<open>
  \<^verbatim>\<open>CategorySelector(categories).run()\<close>, which is also \<^verbatim>\<open>choose_category\<close>. The
  constructor drops the rows whose name was seen before.
\<close>

definition choose_category ::
  "builtins \<Rightarrow> category list \<Rightarrow> string list \<Rightarrow> (py_error + cell option) \<times> string list" where
  "choose_category py categories ins =
     run_loop py (drop_duplicates_by c_name categories) None ins"

subsection \<open>Manual entry and the transfer (\<^verbatim>\<open>moneymover.py\<close>)\<close>

definition fill_manually ::
  "builtins \<Rightarrow> money_mover \<Rightarrow> remote \<Rightarrow> nat \<Rightarrow> bank_transaction \<Rightarrow> world \<Rightarrow>
     (py_error + unit) \<times> world" where
  "fill_manually py mm rem id_num bank_transaction w =
     (case on_stdin choose_transaction_type w of
        (Inl e, w1) \<Rightarrow> (Inl e, w1)
      | (Inr None, w1) \<Rightarrow> (Inr (), w1)
      | (Inr (Some transaction_type), w1) \<Rightarrow>
          (let applicable_categories =
                 filter (\<lambda>c. py_eq (c_type c) (StrV transaction_type)) (mm_wallet_categories mm)
           in case on_stdin (choose_category py applicable_categories) w1 of
                (Inl e, w2) \<Rightarrow> (Inl e, w2)
              | (Inr None, w2) \<Rightarrow> (Inr (), w2)
              | (Inr (Some category), w2) \<Rightarrow>
                  (case get_category_id mm category (StrV transaction_type) w2 of
                     (Inl e, w3) \<Rightarrow> (Inl e, w3)
                   | (Inr category_id, w3) \<Rightarrow>
                       (case input_line w3 of
                          (Inl e, w4) \<Rightarrow> (Inl e, w4)
                        | (Inr note, w4) \<Rightarrow>
                            (let p = create_payload mm category_id bank_transaction (StrV note)
                             in case add_transaction rem p w4 of
                                  (Inl e, w5) \<Rightarrow> (Inl e, w5)
                                | (Inr u, w5) \<Rightarrow>
                                    (Inr (), w5\<lparr>stdout := stdout w5 @ [TransactionAdded]\<rparr>))))))"

fun fill_all ::
  "builtins \<Rightarrow> money_mover \<Rightarrow> remote \<Rightarrow> (nat \<times> bank_transaction) list \<Rightarrow> world \<Rightarrow>
     (py_error + unit) \<times> world" where
  "fill_all py mm rem [] w = (Inr (), w)"
| "fill_all py mm rem ((idx, transaction) # rest) w =
     (case fill_manually py mm rem idx transaction w of
        (Inl e, w') \<Rightarrow> (Inl e, w')
      | (Inr u, w') \<Rightarrow> fill_all py mm rem rest w')"

text \<open>The two selections of \<^verbatim>\<open>transfer_bank_transactions\<close>, rows with their labels.\<close>

definition transactions_to_add :: "bank_transaction list \<Rightarrow> (nat \<times> bank_transaction) list" where
  "transactions_to_add tr_df =
     filter (\<lambda>(idx, r). \<not> flag r ''is_in_ml'' \<and> flag r ''has_preset'') (enumerate 0 tr_df)"

definition remaining_rows :: "bank_transaction list \<Rightarrow> (nat \<times> bank_transaction) list" where
  "remaining_rows tr_df =
     filter (\<lambda>(idx, r). \<not> (flag r ''is_in_ml'' \<or> flag r ''has_preset'')) (enumerate 0 tr_df)"

text \<open>The two passes that flag the rows.\<close>

definition classify ::
  "builtins \<Rightarrow> preset list \<Rightarrow> ml_transaction list \<Rightarrow> bank_transaction list \<Rightarrow>
     py_error + bank_transaction list" where
  "classify py presets ledger bank =
     compare_to_presets py presets (check_if_already_added ledger bank)"

definition transfer_bank_transactions ::
  "builtins \<Rightarrow> money_mover \<Rightarrow> remote \<Rightarrow> world \<Rightarrow>
     (py_error + (nat \<times> bank_transaction) list) \<times> world" where
  "transfer_bank_transactions py mm rem w =
     (case list_transactions rem of
        Inl e \<Rightarrow> (Inl e, w)
      | Inr ledger \<Rightarrow>
          (case classify py (mm_presets mm) ledger (mm_bank mm) of
             Inl e \<Rightarrow> (Inl e, w)
           | Inr tr_df \<Rightarrow>
               (case prompt_adding (transactions_to_add tr_df) w of
                  (Inl e, w1) \<Rightarrow> (Inl e, w1)
                | (Inr go, w1) \<Rightarrow>
                    (case (if go then transfer_from_presets mm rem (transactions_to_add tr_df) w1
                           else (Inr (), w1)) of
                       (Inl e, w2) \<Rightarrow> (Inl e, w2)
                     | (Inr u, w2) \<Rightarrow>
                         (case promt_manual_entry (remaining_rows tr_df) w2 of
                            (Inl e, w3) \<Rightarrow> (Inl e, w3)
                          | (Inr go', w3) \<Rightarrow>
                              (case (if go' then fill_all py mm rem (remaining_rows tr_df) w3
                                     else (Inr (), w3)) of
                                 (Inl e, w4) \<Rightarrow> (Inl e, w4)
                               | (Inr u', w4) \<Rightarrow> (Inr (remaining_rows tr_df), w4)))))))"


subsection \<open>Reading the outcome of a transfer\<close>

text \<open>
  Two shorthands for the statements about \<^verbatim>\<open>transfer_bank_transactions\<close>:
  \<^item> \<open>from_row mm r p\<close>: the payload \<open>p\<close> carries what \<open>create_payload\<close> copies from
    the row \<open>r\<close> and from the engine (wallet, amount, date);
  \<^item> \<open>in_ledger ledger r\<close>: the mask \<^verbatim>\<open>is_same_amount & is_same_date\<close> of
    \<^verbatim>\<open>_check_if_already_added\<close> at the row \<open>r\<close>.
\<close>

abbreviation from_row :: "money_mover \<Rightarrow> bank_transaction \<Rightarrow> payload \<Rightarrow> bool" where
  "from_row mm r p \<equiv>
     (p_wallet_id p = mm_wallet_id mm \<and> p_amount p = b_amount r \<and> p_date p = b_date r)"

abbreviation in_ledger :: "ml_transaction list \<Rightarrow> bank_transaction \<Rightarrow> bool" where
  "in_ledger ledger r \<equiv>
     (isin (b_amount r) (map ml_amount ledger) \<and> isin (b_date r) (map ml_date ledger))"

text \<open>
  Sample data for the engine: categories of two wallets (one name twice in the active
  wallet), a ledger that accepts every call, a quiet terminal, and the sample row
  after the passes labelled it from one preset or the other.
\<close>

definition foreign_food :: category where
  "foreign_food = \<lparr>c_wallet_id = StrV ''w2'', c_wallet_name = StrV ''Savings'',
     c_type = StrV ''expense'', c_name = StrV ''Food'', c_id = StrV ''c9'', c_parent = NaN\<rparr>"

definition food :: category where
  "food = \<lparr>c_wallet_id = StrV ''w1'', c_wallet_name = StrV ''Cash'',
     c_type = StrV ''expense'', c_name = StrV ''Food'', c_id = StrV ''c1'', c_parent = NaN\<rparr>"

definition groceries :: category where
  "groceries = \<lparr>c_wallet_id = StrV ''w1'', c_wallet_name = StrV ''Cash'',
     c_type = StrV ''expense'', c_name = StrV ''Groceries'', c_id = StrV ''c2'',
     c_parent = StrV ''c1''\<rparr>"

definition food_again :: category where
  "food_again = \<lparr>c_wallet_id = StrV ''w1'', c_wallet_name = StrV ''Cash'',
     c_type = StrV ''expense'', c_name = StrV ''Food'', c_id = StrV ''c3'', c_parent = NaN\<rparr>"

definition sample_mm :: money_mover where
  "sample_mm = \<lparr>mm_presets = [coffee_preset, card_preset], mm_wallet_id = StrV ''w1'',
     mm_wallet_categories = [food, groceries, food_again],
     mm_categories_file = [foreign_food, food, groceries, food_again],
     mm_bank = [coffee_row]\<rparr>"

definition accepting_remote :: remote where
  "accepting_remote = \<lparr>list_transactions = Inr [], add_result = (\<lambda>p. None)\<rparr>"

definition quiet_world :: "string list \<Rightarrow> world" where
  "quiet_world lines = \<lparr>stdin = lines, stdout = [], posted = []\<rparr>"

definition coffee_labelled :: bank_transaction where
  "coffee_labelled = write_label (set_col coffee_row ''is_in_ml'' (BoolV False)) coffee_preset"

definition card_labelled :: bank_transaction where
  "card_labelled = write_label (set_col coffee_row ''is_in_ml'' (BoolV False)) card_preset"



text \<open>
  A statement of three rows for a whole run: the sample row, the same payment one day
  later for another amount, and a rent payment that no preset describes; and a ledger
  that already holds the amount of the first row in one entry and its date in another.
\<close>

definition coffee_later :: bank_transaction where
  "coffee_later = coffee_row\<lparr>b_date := TsV 20240306, b_amount := FltV (-3)\<rparr>"

definition rent_row :: bank_transaction where
  "rent_row = coffee_row\<lparr>b_date := TsV 20240307, b_name := StrV ''Landlord'',
     b_amount := FltV (-900), b_transaction_type := StrV ''Online Banking'',
     b_notifications := StrV ''Rent March''\<rparr>"

definition statement_mm :: money_mover where
  "statement_mm = sample_mm\<lparr>mm_bank := [coffee_row, coffee_later, rent_row]\<rparr>"

definition ledger_remote :: remote where
  "ledger_remote = \<lparr>list_transactions = Inr [same_amount_row, same_date_row],
     add_result = (\<lambda>p. None)\<rparr>"

section \<open>The statement selector: properties\<close>

lemma strptime_dmy_error: "strptime_dmy s = Inl e \<Longrightarrow> e = ValueError"
  unfolding strptime_dmy_def Let_def
  by (simp split: list.splits if_splits)

lemma strptime_dmy_midnight: "strptime_dmy s = Inr d \<Longrightarrow> micros d = 0"
  unfolding strptime_dmy_def Let_def
  by (auto split: list.splits if_splits)

lemma sub_days_midnight:
  "micros b = 0 \<Longrightarrow> sub_days a b = ordinal a - ordinal b + micros a div US_PER_DAY"
  unfolding sub_days_def US_PER_DAY_def by simp

lemma closest_loop_invalid:
  "Some m \<in> set ms \<Longrightarrow> \<not> valid_dates m \<Longrightarrow> closest_loop today ms st = Inl ValueError"
proof (induction today ms st rule: closest_loop.induct)
  case (1 today st)
  then show ?case by simp
next
  case (2 today ms st)
  then show ?case by simp
next
  case (3 today m0 ms st)
  show ?case
  proof (cases "valid_dates m0")
    case False
    then show ?thesis
      by (auto simp: valid_dates_def end_str_def start_str_def isl_def
               split: prod.splits sum.splits dest: strptime_dmy_error)
  next
    case True
    with 3 have "Some m \<in> set ms" by auto
    with 3 True show ?thesis
      by (auto simp: valid_dates_def end_str_def start_str_def Let_def
               split: prod.splits sum.splits dest: strptime_dmy_error)
  qed
qed


lemma closest_loop_Some_step:
  assumes "strptime_dmy (start_str m0) = Inr sd0" "strptime_dmy (end_str m0) = Inr ed0"
  shows "closest_loop today (Some m0 # ms) st =
           (if lt_inf (sub_days today ed0) (closest_days_diff st)
            then closest_loop today ms
                   \<lparr>recent_file = Some (mstring m0),
                    closest_days_diff = Some (sub_days today ed0),
                    date_range = Some (sd0, ed0)\<rparr>
            else closest_loop today ms st)"
  using assms by (cases "mgroups m0") (auto simp: start_str_def end_str_def Let_def)

lemma valid_datesE:
  assumes "valid_dates m"
  obtains sd ed where "strptime_dmy (start_str m) = Inr sd" "strptime_dmy (end_str m) = Inr ed"
  using assms unfolding valid_dates_def
  by (cases "strptime_dmy (start_str m)"; cases "strptime_dmy (end_str m)") auto

lemma closest_loop_valid:
  "\<forall>m. Some m \<in> set ms \<longrightarrow> valid_dates m \<Longrightarrow>
   \<exists>st'. closest_loop today ms st = Inr st' \<and> (kept today ms st st' \<or> chosen today ms st st')"
proof (induction ms arbitrary: st)
  case Nil
  then show ?case by (simp add: kept_def)
next
  case (Cons x ms)
  show ?case
  proof (cases x)
    case None
    from Cons.prems have v: "\<forall>m. Some m \<in> set ms \<longrightarrow> valid_dates m" by simp
    from Cons.IH [OF v, of st] obtain st' where
      r: "closest_loop today ms st = Inr st'" and d: "kept today ms st st' \<or> chosen today ms st st'"
      by blast
    from d show ?thesis
    proof
      assume "kept today ms st st'"
      then have "kept today (x # ms) st st'" using None by (auto simp: kept_def)
      with r None show ?thesis by auto
    next
      assume "chosen today ms st st'"
      then obtain pre m post sd ed where c:
        "ms = pre @ Some m # post"
        "strptime_dmy (start_str m) = Inr sd" "strptime_dmy (end_str m) = Inr ed"
        "st' = \<lparr>recent_file = Some (mstring m), closest_days_diff = Some (sub_days today ed),
               date_range = Some (sd, ed)\<rparr>"
        "lt_inf (sub_days today ed) (closest_days_diff st)"
        "\<forall>m' ed'. Some m' \<in> set ms \<longrightarrow> strptime_dmy (end_str m') = Inr ed' \<longrightarrow>
           sub_days today ed \<le> sub_days today ed'"
        "\<forall>m' ed'. Some m' \<in> set pre \<longrightarrow> strptime_dmy (end_str m') = Inr ed' \<longrightarrow>
           sub_days today ed < sub_days today ed'"
        unfolding chosen_def by blast
      have "chosen today (x # ms) st st'"
        unfolding chosen_def
        apply (rule exI [of _ "None # pre"], rule exI [of _ m], rule exI [of _ post],
               rule exI [of _ sd], rule exI [of _ ed])
        using c None by auto
      with r None show ?thesis by auto
    qed
  next
    case (Some m0)
    from Cons.prems Some have "valid_dates m0" by simp
    then obtain sd0 ed0 where p0:
      "strptime_dmy (start_str m0) = Inr sd0" "strptime_dmy (end_str m0) = Inr ed0"
      by (rule valid_datesE)
    from Cons.prems have v: "\<forall>m. Some m \<in> set ms \<longrightarrow> valid_dates m" by simp
    let ?d0 = "sub_days today ed0"
    let ?st1 = "\<lparr>recent_file = Some (mstring m0), closest_days_diff = Some ?d0,
                 date_range = Some (sd0, ed0)\<rparr>"
    show ?thesis
    proof (cases "lt_inf ?d0 (closest_days_diff st)")
      case True
      then have step: "closest_loop today (x # ms) st = closest_loop today ms ?st1"
        using Some closest_loop_Some_step [OF p0] by simp
      from Cons.IH [OF v, of ?st1] obtain st' where
        r: "closest_loop today ms ?st1 = Inr st'" and
        d: "kept today ms ?st1 st' \<or> chosen today ms ?st1 st'"
        by blast
      from d have "chosen today (x # ms) st st'"
      proof
        assume k: "kept today ms ?st1 st'"
        show ?thesis
          unfolding chosen_def
          apply (rule exI [of _ "[]"], rule exI [of _ m0], rule exI [of _ ms],
                 rule exI [of _ sd0], rule exI [of _ ed0])
          using k p0 True Some by (auto simp: kept_def lt_inf_def)
      next
        assume "chosen today ms ?st1 st'"
        then obtain pre m post sd ed where c:
          "ms = pre @ Some m # post"
          "strptime_dmy (start_str m) = Inr sd" "strptime_dmy (end_str m) = Inr ed"
          "st' = \<lparr>recent_file = Some (mstring m), closest_days_diff = Some (sub_days today ed),
                 date_range = Some (sd, ed)\<rparr>"
          "lt_inf (sub_days today ed) (closest_days_diff ?st1)"
          "\<forall>m' ed'. Some m' \<in> set ms \<longrightarrow> strptime_dmy (end_str m') = Inr ed' \<longrightarrow>
             sub_days today ed \<le> sub_days today ed'"
          "\<forall>m' ed'. Some m' \<in> set pre \<longrightarrow> strptime_dmy (end_str m') = Inr ed' \<longrightarrow>
             sub_days today ed < sub_days today ed'"
          unfolding chosen_def by blast
        from c(5) have lt: "sub_days today ed < ?d0" by (simp add: lt_inf_def)
        with True have lt_st: "lt_inf (sub_days today ed) (closest_days_diff st)"
          by (auto simp: lt_inf_def split: option.splits)
        show ?thesis
          unfolding chosen_def
          apply (rule exI [of _ "Some m0 # pre"], rule exI [of _ m], rule exI [of _ post],
                 rule exI [of _ sd], rule exI [of _ ed])
          using c(1-4,6,7) lt lt_st p0 Some by auto
      qed
      with r step show ?thesis by auto
    next
      case False
      then have step: "closest_loop today (x # ms) st = closest_loop today ms st"
        using Some closest_loop_Some_step [OF p0] by simp
      from Cons.IH [OF v, of st] obtain st' where
        r: "closest_loop today ms st = Inr st'" and
        d: "kept today ms st st' \<or> chosen today ms st st'"
        by blast
      from d show ?thesis
      proof
        assume "kept today ms st st'"
        then have "kept today (x # ms) st st'"
          using False p0 Some by (auto simp: kept_def)
        with r step show ?thesis by auto
      next
        assume "chosen today ms st st'"
        then obtain pre m post sd ed where c:
          "ms = pre @ Some m # post"
          "strptime_dmy (start_str m) = Inr sd" "strptime_dmy (end_str m) = Inr ed"
          "st' = \<lparr>recent_file = Some (mstring m), closest_days_diff = Some (sub_days today ed),
                 date_range = Some (sd, ed)\<rparr>"
          "lt_inf (sub_days today ed) (closest_days_diff st)"
          "\<forall>m' ed'. Some m' \<in> set ms \<longrightarrow> strptime_dmy (end_str m') = Inr ed' \<longrightarrow>
             sub_days today ed \<le> sub_days today ed'"
          "\<forall>m' ed'. Some m' \<in> set pre \<longrightarrow> strptime_dmy (end_str m') = Inr ed' \<longrightarrow>
             sub_days today ed < sub_days today ed'"
          unfolding chosen_def by blast
        from c(5) False have lt: "sub_days today ed < ?d0"
          by (auto simp: lt_inf_def split: option.splits)
        have "chosen today (x # ms) st st'"
          unfolding chosen_def
          apply (rule exI [of _ "Some m0 # pre"], rule exI [of _ m], rule exI [of _ post],
                 rule exI [of _ sd], rule exI [of _ ed])
          using c lt p0 Some by auto
        with r step show ?thesis by auto
      qed
    qed
  qed
qed


lemma try_split_mstring: "try_split s i = Some m \<Longrightarrow> mstring m = s"
  by (induction i) (auto split: if_splits)

lemma file_pattern_match_mstring: "file_pattern_match s = Some m \<Longrightarrow> mstring m = s"
  unfolding file_pattern_match_def by (rule try_split_mstring)

lemma kept_init_no_candidate:
  assumes "kept today ms init_state st'" "\<forall>m. Some m \<in> set ms \<longrightarrow> valid_dates m"
  shows "\<forall>m. Some m \<notin> set ms"
proof
  fix m
  show "Some m \<notin> set ms"
  proof
    assume in_ms: "Some m \<in> set ms"
    with assms(2) have "valid_dates m" by blast
    then obtain sd ed where
      "strptime_dmy (start_str m) = Inr sd" "strptime_dmy (end_str m) = Inr ed"
      by (rule valid_datesE)
    with assms(1) in_ms show False
      by (auto simp: kept_def init_state_def lt_inf_def)
  qed
qed

lemma find_closest_invalid:
  "Some m \<in> set ms \<Longrightarrow> \<not> valid_dates m \<Longrightarrow> find_closest_end_date_file today ms = Inl ValueError"
  unfolding find_closest_end_date_file_def
  by (simp add: closest_loop_invalid)

lemma find_closest_none:
  assumes "\<forall>m. Some m \<notin> set ms"
  shows "find_closest_end_date_file today ms = Inl FileNotFoundError"
proof -
  have "closest_loop today ms st = Inr st" for st
    using assms
  proof (induction ms)
    case Nil
    then show ?case by simp
  next
    case (Cons x ms)
    then show ?case by (cases x) auto
  qed
  then show ?thesis
    unfolding find_closest_end_date_file_def by (simp add: init_state_def)
qed

lemma find_closest_some:
  assumes v: "\<forall>m. Some m \<in> set ms \<longrightarrow> valid_dates m" and ex: "Some m0 \<in> set ms"
  shows "\<exists>pre m post sd ed.
           ms = pre @ Some m # post \<and>
           strptime_dmy (start_str m) = Inr sd \<and> strptime_dmy (end_str m) = Inr ed \<and>
           find_closest_end_date_file today ms = Inr (mstring m, Some (sd, ed)) \<and>
           (\<forall>m' ed'. Some m' \<in> set ms \<longrightarrow> strptime_dmy (end_str m') = Inr ed' \<longrightarrow>
              sub_days today ed \<le> sub_days today ed') \<and>
           (\<forall>m' ed'. Some m' \<in> set pre \<longrightarrow> strptime_dmy (end_str m') = Inr ed' \<longrightarrow>
              sub_days today ed < sub_days today ed')"
proof -
  from closest_loop_valid [OF v, of today init_state] obtain st' where
    r: "closest_loop today ms init_state = Inr st'" and
    d: "kept today ms init_state st' \<or> chosen today ms init_state st'"
    by blast
  from kept_init_no_candidate [OF _ v] ex have "\<not> kept today ms init_state st'" by blast
  with d have "chosen today ms init_state st'" by blast
  then obtain pre m post sd ed where c:
    "ms = pre @ Some m # post"
    "strptime_dmy (start_str m) = Inr sd" "strptime_dmy (end_str m) = Inr ed"
    "st' = \<lparr>recent_file = Some (mstring m), closest_days_diff = Some (sub_days today ed),
           date_range = Some (sd, ed)\<rparr>"
    "\<forall>m' ed'. Some m' \<in> set ms \<longrightarrow> strptime_dmy (end_str m') = Inr ed' \<longrightarrow>
       sub_days today ed \<le> sub_days today ed'"
    "\<forall>m' ed'. Some m' \<in> set pre \<longrightarrow> strptime_dmy (end_str m') = Inr ed' \<longrightarrow>
       sub_days today ed < sub_days today ed'"
    unfolding chosen_def by blast
  from r c(4) have "find_closest_end_date_file today ms = Inr (mstring m, Some (sd, ed))"
    unfolding find_closest_end_date_file_def init_state_def by simp
  with c(1-3,5,6) show ?thesis by blast
qed

lemma sub_days_le_iff:
  assumes "strptime_dmy s = Inr ed" "strptime_dmy s' = Inr ed'"
  shows "sub_days today ed \<le> sub_days today ed' \<longleftrightarrow> ordinal ed' \<le> ordinal ed"
    and "sub_days today ed < sub_days today ed' \<longleftrightarrow> ordinal ed' < ordinal ed"
  using assms by (auto simp: sub_days_midnight dest!: strptime_dmy_midnight)

text \<open>
  Claim C1, as the code has it. When every candidate carries two calendar dates and
  there is at least one candidate, \<^verbatim>\<open>_find_closest_end_date_file\<close> returns the
  first candidate whose signed difference \<^verbatim>\<open>(today - end_date).days\<close> is least: no
  candidate has a smaller difference, and every candidate before it in iteration
  order has a strictly larger one (ties keep the first seen). The comparison is on the
  signed difference, not on its absolute value, so the file returned is the one with
  the latest end date; a file that ends in the future takes part with a negative
  difference. The date range recorded is that of the file returned.
\<close>

theorem find_closest_least_signed_diff:
  assumes "\<forall>m. Some m \<in> set file_match \<longrightarrow> valid_dates m" and "\<exists>m. Some m \<in> set file_match"
  shows "\<exists>pre m post sd ed.
           file_match = pre @ Some m # post \<and>
           strptime_dmy (start_str m) = Inr sd \<and> strptime_dmy (end_str m) = Inr ed \<and>
           find_closest_end_date_file today file_match = Inr (mstring m, Some (sd, ed)) \<and>
           (\<forall>m' ed'. Some m' \<in> set file_match \<longrightarrow> strptime_dmy (end_str m') = Inr ed' \<longrightarrow>
              sub_days today ed \<le> sub_days today ed' \<and> ordinal ed' \<le> ordinal ed) \<and>
           (\<forall>m' ed'. Some m' \<in> set pre \<longrightarrow> strptime_dmy (end_str m') = Inr ed' \<longrightarrow>
              sub_days today ed < sub_days today ed' \<and> ordinal ed' < ordinal ed)"
proof -
  from assms(2) obtain m0 where "Some m0 \<in> set file_match" by blast
  from find_closest_some [OF assms(1) this, of today] obtain pre m post sd ed where c:
    "file_match = pre @ Some m # post"
    "strptime_dmy (start_str m) = Inr sd" "strptime_dmy (end_str m) = Inr ed"
    "find_closest_end_date_file today file_match = Inr (mstring m, Some (sd, ed))"
    "\<forall>m' ed'. Some m' \<in> set file_match \<longrightarrow> strptime_dmy (end_str m') = Inr ed' \<longrightarrow>
       sub_days today ed \<le> sub_days today ed'"
    "\<forall>m' ed'. Some m' \<in> set pre \<longrightarrow> strptime_dmy (end_str m') = Inr ed' \<longrightarrow>
       sub_days today ed < sub_days today ed'"
    by blast
  have le: "sub_days today ed \<le> sub_days today ed' \<and> ordinal ed' \<le> ordinal ed"
    if "Some m' \<in> set file_match" "strptime_dmy (end_str m') = Inr ed'" for m' ed'
    using that c(5) sub_days_le_iff(1) [OF c(3) that(2), of today] by blast
  have lt: "sub_days today ed < sub_days today ed' \<and> ordinal ed' < ordinal ed"
    if "Some m' \<in> set pre" "strptime_dmy (end_str m') = Inr ed'" for m' ed'
    using that c(6) sub_days_le_iff(2) [OF c(3) that(2), of today] by blast
  from c(1-4) le lt show ?thesis by blast
qed

text \<open>
  Claim C9, as the code has it. If every file name that matches the pattern carries
  two calendar dates, \<^verbatim>\<open>_find_statement\<close> raises \<^verbatim>\<open>FileNotFoundError\<close> exactly when
  no listed name matches the pattern, and when some name matches it returns a listed,
  matching name and raises nothing. If some matching name carries digits that are not
  a calendar date, it raises \<^verbatim>\<open>ValueError\<close> instead.
\<close>

theorem find_statement_outcomes:
  "((\<forall>n\<in>set csv_files. \<forall>m. file_pattern_match n = Some m \<longrightarrow> valid_dates m) \<longrightarrow>
      (find_statement today root_path csv_files = Inl FileNotFoundError \<longleftrightarrow>
         (\<forall>n\<in>set csv_files. file_pattern_match n = None)) \<and>
      ((\<exists>n\<in>set csv_files. file_pattern_match n \<noteq> None) \<longrightarrow>
         (\<exists>f dr. find_statement today root_path csv_files = Inr ((root_path, f), dr) \<and>
                  f \<in> set csv_files \<and> file_pattern_match f \<noteq> None))) \<and>
   ((\<exists>n\<in>set csv_files. \<exists>m. file_pattern_match n = Some m \<and> \<not> valid_dates m) \<longrightarrow>
      find_statement today root_path csv_files = Inl ValueError)"
proof (intro conjI impI)
  assume "\<exists>n\<in>set csv_files. \<exists>m. file_pattern_match n = Some m \<and> \<not> valid_dates m"
  then obtain n m where "n \<in> set csv_files" "file_pattern_match n = Some m" "\<not> valid_dates m"
    by blast
  then have "Some m \<in> set (map file_pattern_match csv_files)" by force
  from find_closest_invalid [OF this \<open>\<not> valid_dates m\<close>]
  show "find_statement today root_path csv_files = Inl ValueError"
    unfolding find_statement_def by simp
next
  assume v: "\<forall>n\<in>set csv_files. \<forall>m. file_pattern_match n = Some m \<longrightarrow> valid_dates m"
  let ?ms = "map file_pattern_match csv_files"
  from v have v': "\<forall>m. Some m \<in> set ?ms \<longrightarrow> valid_dates m" by auto
  have some: "\<exists>f dr. find_statement today root_path csv_files = Inr ((root_path, f), dr) \<and>
                f \<in> set csv_files \<and> file_pattern_match f \<noteq> None"
    if "\<exists>n\<in>set csv_files. file_pattern_match n \<noteq> None"
  proof -
    from that obtain n m0 where "n \<in> set csv_files" "file_pattern_match n = Some m0" by auto
    then have "Some m0 \<in> set ?ms" by force
    from find_closest_some [OF v' this, of today] obtain pre m post sd ed where c:
      "?ms = pre @ Some m # post"
      "find_closest_end_date_file today ?ms = Inr (mstring m, Some (sd, ed))"
      by blast
    from c(1) have "Some m \<in> set ?ms" by simp
    then obtain f where f: "f \<in> set csv_files" "file_pattern_match f = Some m" by auto
    with file_pattern_match_mstring have "mstring m = f" by blast
    with c(2) f show ?thesis
      unfolding find_statement_def by auto
  qed
  show "(\<exists>n\<in>set csv_files. file_pattern_match n \<noteq> None) \<Longrightarrow>
         \<exists>f dr. find_statement today root_path csv_files = Inr ((root_path, f), dr) \<and>
                f \<in> set csv_files \<and> file_pattern_match f \<noteq> None"
    by (rule some)
  show "find_statement today root_path csv_files = Inl FileNotFoundError \<longleftrightarrow>
          (\<forall>n\<in>set csv_files. file_pattern_match n = None)"
  proof
    assume nf: "find_statement today root_path csv_files = Inl FileNotFoundError"
    show "\<forall>n\<in>set csv_files. file_pattern_match n = None"
    proof (rule ccontr)
      assume "\<not> (\<forall>n\<in>set csv_files. file_pattern_match n = None)"
      then have "\<exists>n\<in>set csv_files. file_pattern_match n \<noteq> None" by blast
      from some [OF this] nf show False by auto
    qed
  next
    assume "\<forall>n\<in>set csv_files. file_pattern_match n = None"
    then have "\<forall>m. Some m \<notin> set ?ms" by auto
    from find_closest_none [OF this]
    show "find_statement today root_path csv_files = Inl FileNotFoundError"
      unfolding find_statement_def by simp
  qed
qed


text \<open>
  The selector among a January and a March statement, seen from 10 April 2024.
\<close>

theorem find_closest_least_signed_diff_witness:
  "valid_dates january_match \<and> valid_dates march_match \<and>
   find_closest_end_date_file noon_10_april_2024 [Some january_match, None, Some march_match] =
     Inr (''a_01-03-2024_30-03-2024.csv'',
          Some (\<lparr>ordinal = 738946, micros = 0\<rparr>, \<lparr>ordinal = 738975, micros = 0\<rparr>)) \<and>
   (\<exists>pre m post sd ed.
      [Some january_match, None, Some march_match] = pre @ Some m # post \<and>
      strptime_dmy (start_str m) = Inr sd \<and> strptime_dmy (end_str m) = Inr ed \<and>
      find_closest_end_date_file noon_10_april_2024 [Some january_match, None, Some march_match] =
        Inr (mstring m, Some (sd, ed)) \<and>
      (\<forall>m' ed'. Some m' \<in> set [Some january_match, None, Some march_match] \<longrightarrow>
         strptime_dmy (end_str m') = Inr ed' \<longrightarrow>
         sub_days noon_10_april_2024 ed \<le> sub_days noon_10_april_2024 ed' \<and>
         ordinal ed' \<le> ordinal ed) \<and>
      (\<forall>m' ed'. Some m' \<in> set pre \<longrightarrow> strptime_dmy (end_str m') = Inr ed' \<longrightarrow>
         sub_days noon_10_april_2024 ed < sub_days noon_10_april_2024 ed' \<and>
         ordinal ed' < ordinal ed))"
proof -
  have va: "valid_dates january_match" by code_simp
  have vb: "valid_dates march_match" by code_simp
  have r: "find_closest_end_date_file noon_10_april_2024
             [Some january_match, None, Some march_match] =
           Inr (''a_01-03-2024_30-03-2024.csv'',
                Some (\<lparr>ordinal = 738946, micros = 0\<rparr>, \<lparr>ordinal = 738975, micros = 0\<rparr>))"
    by code_simp
  have v: "\<forall>m. Some m \<in> set [Some january_match, None, Some march_match] \<longrightarrow> valid_dates m"
    using va vb by auto
  have e: "\<exists>m. Some m \<in> set [Some january_match, None, Some march_match]" by auto
  from find_closest_least_signed_diff [OF v e, of noon_10_april_2024] va vb r
  show ?thesis by blast
qed

text \<open>
  Seen from noon of 10 April 2024, a statement that ended the day before is one day
  away and a statement ending on 30 April is twenty days away; the second is returned.
\<close>

theorem closest_absolute_counterexample:
  "find_closest_end_date_file noon_10_april_2024
     (map file_pattern_match [''a_01-04-2024_09-04-2024.csv'', ''a_01-04-2024_30-04-2024.csv'']) =
     Inr (''a_01-04-2024_30-04-2024.csv'',
          Some (\<lparr>ordinal = ymd2ord 2024 4 1, micros = 0\<rparr>,
                \<lparr>ordinal = ymd2ord 2024 4 30, micros = 0\<rparr>)) \<and>
   \<bar>sub_days noon_10_april_2024 \<lparr>ordinal = ymd2ord 2024 4 9, micros = 0\<rparr>\<bar> = 1 \<and>
   \<bar>sub_days noon_10_april_2024 \<lparr>ordinal = ymd2ord 2024 4 30, micros = 0\<rparr>\<bar> = 20"
  by code_simp

text \<open>A folder with one matching and one other file.\<close>

theorem find_statement_outcomes_witness:
  "file_pattern_match ''readme.csv'' = None \<and>
   (\<exists>m. file_pattern_match ''a_01-03-2024_30-03-2024.csv'' = Some m \<and> valid_dates m) \<and>
   find_statement noon_10_april_2024 ''bank'' [''readme.csv'', ''a_01-03-2024_30-03-2024.csv'']
     \<noteq> Inl FileNotFoundError \<and>
   (\<exists>f dr. find_statement noon_10_april_2024 ''bank''
              [''readme.csv'', ''a_01-03-2024_30-03-2024.csv''] = Inr ((''bank'', f), dr) \<and>
            f \<in> set [''readme.csv'', ''a_01-03-2024_30-03-2024.csv''] \<and>
            file_pattern_match f \<noteq> None)"
proof -
  let ?names = "[''readme.csv'', ''a_01-03-2024_30-03-2024.csv'']"
  have n1: "file_pattern_match ''readme.csv'' = None" by code_simp
  have n2: "file_pattern_match ''a_01-03-2024_30-03-2024.csv'' = Some march_match" by code_simp
  have vb: "valid_dates march_match" by code_simp
  have v: "\<forall>n\<in>set ?names. \<forall>m. file_pattern_match n = Some m \<longrightarrow> valid_dates m"
    using n1 n2 vb by auto
  have e: "\<exists>n\<in>set ?names. file_pattern_match n \<noteq> None"
    using n2 by auto
  from find_statement_outcomes [of ?names noon_10_april_2024 "''bank''"] v e
  obtain f dr where
    c: "find_statement noon_10_april_2024 ''bank'' ?names = Inr ((''bank'', f), dr)"
       "f \<in> set ?names" "file_pattern_match f \<noteq> None"
    by blast
  from c have "find_statement noon_10_april_2024 ''bank'' ?names \<noteq> Inl FileNotFoundError"
    by simp
  with c n1 n2 vb show ?thesis by blast
qed

text \<open>
  A name that matches the pattern with 31 February as its dates: the search ends in
  \<^verbatim>\<open>ValueError\<close>, neither a file nor \<^verbatim>\<open>FileNotFoundError\<close>.
\<close>

theorem find_statement_invalid_date_counterexample:
  "file_pattern_match ''a_31-02-2024_31-02-2024.csv'' \<noteq> None \<and>
   find_statement noon_10_april_2024 ''bank'' [''a_31-02-2024_31-02-2024.csv''] = Inl ValueError"
  by code_simp


section \<open>The dedup and preset passes: properties\<close>

lemma isin_iff: "isin a (map f xs) \<longleftrightarrow> (\<exists>x\<in>set xs. isin_eq a (f x))"
  by (simp add: isin_def list_ex_iff)

text \<open>
  Claim C2. After the dedup pass the \<^verbatim>\<open>is_in_ml\<close> flag of every bank transaction is
  true exactly when some ledger transaction has its amount and some ledger
  transaction, possibly another one, has its date. The two look-ups
  (\<^verbatim>\<open>isin\<close> on the amount column, \<^verbatim>\<open>isin\<close> on the date column) are separate; no
  single ledger row has to carry both.
\<close>

theorem dedup_marks_amount_and_date_separately:
  "map (\<lambda>r. b_extra r ''is_in_ml'') (check_if_already_added ml_transactions bank_transactions) =
   map (\<lambda>b. Some (BoolV ((\<exists>l\<in>set ml_transactions. isin_eq (b_amount b) (ml_amount l)) \<and>
                          (\<exists>l'\<in>set ml_transactions. isin_eq (b_date b) (ml_date l')))))
       bank_transactions"
  by (simp add: check_if_already_added_def set_col_def isin_iff Let_def)

lemma conditions_hold_True_iff:
  "conditions_hold py bt cs = Inr True \<longleftrightarrow>
     (\<forall>(column, pattern)\<in>set cs.
        re_match_ic py pattern (py_str py (series_get bt column (StrV []))) = Inr True)"
proof (induction cs)
  case Nil
  then show ?case by simp
next
  case (Cons a cs)
  obtain column pattern where a: "a = (column, pattern)" by (cases a)
  show ?case
  proof (cases "re_match_ic py pattern (py_str py (series_get bt column (StrV [])))")
    case (Inl e)
    with a show ?thesis by (simp add: Let_def)
  next
    case (Inr found)
    with a Cons.IH show ?thesis by (cases found) (simp_all add: Let_def)
  qed
qed

lemma first_matching_preset_Some:
  "first_matching_preset py r ps = Inr (Some p) \<Longrightarrow>
     \<exists>pre post. ps = pre @ p # post \<and> is_preset_matched py r p = Inr True \<and>
       (\<forall>q\<in>set pre. is_preset_matched py r q = Inr False)"
proof (induction ps)
  case Nil
  then show ?case by simp
next
  case (Cons a ps)
  show ?case
  proof (cases "is_preset_matched py r a")
    case (Inl e)
    with Cons.prems show ?thesis by simp
  next
    case (Inr m)
    show ?thesis
    proof (cases m)
      case True
      with Inr Cons.prems have "a = p" by simp
      with Inr True have "a # ps = [] @ p # ps \<and> is_preset_matched py r p = Inr True \<and>
        (\<forall>q\<in>set []. is_preset_matched py r q = Inr False)" by simp
      then show ?thesis by blast
    next
      case False
      with Inr Cons.prems have "first_matching_preset py r ps = Inr (Some p)" by simp
      from Cons.IH [OF this] obtain pre post where
        "ps = pre @ p # post" "is_preset_matched py r p = Inr True"
        "\<forall>q\<in>set pre. is_preset_matched py r q = Inr False" by blast
      with Inr False have "a # ps = (a # pre) @ p # post \<and> is_preset_matched py r p = Inr True \<and>
        (\<forall>q\<in>set (a # pre). is_preset_matched py r q = Inr False)" by simp
      then show ?thesis by blast
    qed
  qed
qed

lemma first_matching_preset_None:
  "first_matching_preset py r ps = Inr None \<Longrightarrow> \<forall>q\<in>set ps. is_preset_matched py r q = Inr False"
  by (induction ps) (auto split: sum.splits if_splits)

lemma preset_rows_nth:
  "preset_rows py ps rs = Inr rs' \<Longrightarrow>
     length rs' = length rs \<and>
     (\<forall>i<length rs. \<exists>found. first_matching_preset py (rs ! i) ps = Inr found \<and>
        rs' ! i = (case found of None \<Rightarrow> rs ! i | Some p \<Rightarrow> write_label (rs ! i) p))"
proof (induction rs arbitrary: rs')
  case Nil
  then show ?case by simp
next
  case (Cons r rs)
  from Cons.prems obtain found rs0 where
    f: "first_matching_preset py r ps = Inr found" and
    t: "preset_rows py ps rs = Inr rs0" and
    e: "rs' = (case found of None \<Rightarrow> r | Some p \<Rightarrow> write_label r p) # rs0"
    by (auto split: sum.splits)
  from Cons.IH [OF t] have
    len: "length rs0 = length rs" and
    nth: "\<forall>i<length rs. \<exists>found. first_matching_preset py (rs ! i) ps = Inr found \<and>
        rs0 ! i = (case found of None \<Rightarrow> rs ! i | Some p \<Rightarrow> write_label (rs ! i) p)"
    by blast+
  show ?case
  proof (intro conjI allI impI)
    show "length rs' = length (r # rs)" using e len by simp
  next
    fix i assume "i < length (r # rs)"
    then show "\<exists>found. first_matching_preset py ((r # rs) ! i) ps = Inr found \<and>
        rs' ! i = (case found of None \<Rightarrow> (r # rs) ! i | Some p \<Rightarrow> write_label ((r # rs) ! i) p)"
    proof (cases i)
      case 0
      with f e show ?thesis by (cases found) simp_all
    next
      case (Suc j)
      with \<open>i < length (r # rs)\<close> have "j < length rs" by simp
      with nth obtain found' where
        "first_matching_preset py (rs ! j) ps = Inr found'"
        "rs0 ! j = (case found' of None \<Rightarrow> rs ! j | Some p \<Rightarrow> write_label (rs ! j) p)"
        by blast
      with Suc e show ?thesis by (cases found') simp_all
    qed
  qed
qed

lemma length_fill_column [simp]: "length (fill_column c rows) = length rows"
  by (simp add: fill_column_def)

lemma fill_column_nth:
  "i < length rows \<Longrightarrow>
   b_extra (fill_column c rows ! i) c' =
     (if c' = c \<and> b_extra (rows ! i) c = None \<and> list_ex (\<lambda>r. b_extra r c \<noteq> None) rows
      then Some NaN else b_extra (rows ! i) c')"
  by (auto simp: fill_column_def set_col_def)

lemma fill_column_keeps:
  "i < length rows \<Longrightarrow> b_extra (rows ! i) c' = Some v \<Longrightarrow>
   b_extra (fill_column c rows ! i) c' = Some v"
  by (auto simp: fill_column_nth)

lemma fill_column_step:
  "i < length rows \<Longrightarrow>
   b_extra (rows ! i) c' = x \<or> (x = None \<and> b_extra (rows ! i) c' = Some NaN) \<Longrightarrow>
   b_extra (fill_column c rows ! i) c' = x \<or>
     (x = None \<and> b_extra (fill_column c rows ! i) c' = Some NaN)"
  by (auto simp: fill_column_nth)

lemma fill_three_keeps:
  "i < length rows \<Longrightarrow> b_extra (rows ! i) c' = Some v \<Longrightarrow>
   b_extra (fill_column c3 (fill_column c2 (fill_column c1 rows)) ! i) c' = Some v"
  by (simp add: fill_column_keeps)

lemma fill_three_step:
  assumes "i < length rows" "b_extra (rows ! i) c' = x"
  shows "b_extra (fill_column c3 (fill_column c2 (fill_column c1 rows)) ! i) c' = x \<or>
     (x = None \<and> b_extra (fill_column c3 (fill_column c2 (fill_column c1 rows)) ! i) c' = Some NaN)"
proof -
  have 1: "b_extra (fill_column c1 rows ! i) c' = x \<or>
     (x = None \<and> b_extra (fill_column c1 rows ! i) c' = Some NaN)"
    using fill_column_step [of i rows c' x c1] assms by blast
  have 2: "b_extra (fill_column c2 (fill_column c1 rows) ! i) c' = x \<or>
     (x = None \<and> b_extra (fill_column c2 (fill_column c1 rows) ! i) c' = Some NaN)"
    using fill_column_step [of i "fill_column c1 rows" c' x c2] assms(1) 1 by simp
  show ?thesis
    using fill_column_step [of i "fill_column c2 (fill_column c1 rows)" c' x c3] assms(1) 2
    by simp
qed

lemma write_label_extra:
  "b_extra (write_label r p) ''has_preset'' = Some (BoolV True)"
  "b_extra (write_label r p) ''note'' = Some (l_note (label p))"
  "b_extra (write_label r p) ''category_name'' = Some (l_category_name (label p))"
  "b_extra (write_label r p) ''type'' = Some (l_type (label p))"
  by (simp_all add: write_label_def set_col_def)

lemma compare_to_presets_row:
  assumes ok: "compare_to_presets py presets df = Inr df'" and i: "i < length df"
  defines "r \<equiv> set_col (df ! i) ''has_preset'' (BoolV False)"
  shows "(\<exists>pre p post. presets = pre @ p # post \<and> is_preset_matched py r p = Inr True \<and>
            (\<forall>q\<in>set pre. is_preset_matched py r q = Inr False) \<and>
            b_extra (df' ! i) ''has_preset'' = Some (BoolV True) \<and>
            b_extra (df' ! i) ''note'' = Some (l_note (label p)) \<and>
            b_extra (df' ! i) ''category_name'' = Some (l_category_name (label p)) \<and>
            b_extra (df' ! i) ''type'' = Some (l_type (label p))) \<or>
         ((\<forall>q\<in>set presets. is_preset_matched py r q = Inr False) \<and>
            b_extra (df' ! i) ''has_preset'' = Some (BoolV False) \<and>
            (\<forall>c\<in>{''note'', ''category_name'', ''type''}.
               b_extra (df' ! i) c = b_extra (df ! i) c \<or>
               (b_extra (df ! i) c = None \<and> b_extra (df' ! i) c = Some NaN)))"
proof -
  let ?df1 = "map (\<lambda>r. set_col r ''has_preset'' (BoolV False)) df"
  from ok obtain rows where
    rows: "preset_rows py presets ?df1 = Inr rows" and
    df': "df' = fill_column ''type'' (fill_column ''category_name'' (fill_column ''note'' rows))"
    by (auto simp: compare_to_presets_def Let_def split: sum.splits)
  have d1: "?df1 ! i = r" using i by (simp add: r_def)
  from preset_rows_nth [OF rows] i have len: "length rows = length df" and
    "\<exists>found. first_matching_preset py (?df1 ! i) presets = Inr found \<and>
        rows ! i = (case found of None \<Rightarrow> ?df1 ! i | Some p \<Rightarrow> write_label (?df1 ! i) p)"
    by auto
  then obtain found where
    f: "first_matching_preset py r presets = Inr found" and
    ri: "rows ! i = (case found of None \<Rightarrow> r | Some p \<Rightarrow> write_label r p)"
    unfolding d1 by blast
  from i len have il: "i < length rows" by simp
  show ?thesis
  proof (cases found)
    case None
    with f have un: "\<forall>q\<in>set presets. is_preset_matched py r q = Inr False"
      by (simp add: first_matching_preset_None)
    from None ri have rr: "rows ! i = r" by simp
    have hp: "b_extra (df' ! i) ''has_preset'' = Some (BoolV False)"
      unfolding df' using fill_three_keeps [OF il, of "''has_preset''" "BoolV False"] rr
      by (simp add: r_def set_col_def)
    have lab: "b_extra (df' ! i) c = b_extra (df ! i) c \<or>
               (b_extra (df ! i) c = None \<and> b_extra (df' ! i) c = Some NaN)"
      if "c \<in> {''note'', ''category_name'', ''type''}" for c
    proof -
      from that rr have "b_extra (rows ! i) c = b_extra (df ! i) c"
        by (auto simp: r_def set_col_def)
      from fill_three_step [OF il this] show ?thesis unfolding df' by blast
    qed
    have "\<forall>c\<in>{''note'', ''category_name'', ''type''}.
            b_extra (df' ! i) c = b_extra (df ! i) c \<or>
            (b_extra (df ! i) c = None \<and> b_extra (df' ! i) c = Some NaN)"
      using lab by (intro ballI)
    with un hp show ?thesis by (intro disjI2 conjI)
  next
    case (Some p)
    from first_matching_preset_Some [OF f [unfolded Some]] obtain pre post where
      d: "presets = pre @ p # post" "is_preset_matched py r p = Inr True"
         "\<forall>q\<in>set pre. is_preset_matched py r q = Inr False"
      by blast
    from Some ri have rr: "rows ! i = write_label r p" by simp
    have e: "b_extra (df' ! i) ''has_preset'' = Some (BoolV True)"
         "b_extra (df' ! i) ''note'' = Some (l_note (label p))"
         "b_extra (df' ! i) ''category_name'' = Some (l_category_name (label p))"
         "b_extra (df' ! i) ''type'' = Some (l_type (label p))"
      unfolding df' using il rr by (simp_all add: fill_three_keeps write_label_extra)
    show ?thesis
      apply (rule disjI1)
      apply (rule exI [of _ pre], rule exI [of _ p], rule exI [of _ post])
      using d e by simp
  qed
qed

lemma conditions_hold_total:
  "\<forall>(column, pattern)\<in>set cs. \<forall>s. \<not> isl (re_match_ic py pattern s) \<Longrightarrow>
   \<exists>b. conditions_hold py bt cs = Inr b"
proof (induction cs)
  case Nil
  show ?case by (rule exI [of _ True]) simp
next
  case (Cons a cs)
  obtain column pattern where a: "a = (column, pattern)" by (cases a)
  from Cons.prems have "\<forall>(column, pattern)\<in>set cs. \<forall>s. \<not> isl (re_match_ic py pattern s)"
    by simp
  from Cons.IH [OF this] obtain b where tl: "conditions_hold py bt cs = Inr b" ..
  show ?case
  proof (cases "re_match_ic py pattern (py_str py (series_get bt column (StrV [])))")
    case (Inl e)
    from Cons.prems a have
      "\<not> isl (re_match_ic py pattern (py_str py (series_get bt column (StrV []))))" by simp
    with Inl show ?thesis by simp
  next
    case (Inr found)
    with a tl show ?thesis by (cases found) (auto simp: Let_def)
  qed
qed

lemma first_matching_preset_total:
  "\<forall>p\<in>set ps. \<forall>(column, pattern)\<in>set (conditions p). \<forall>s. \<not> isl (re_match_ic py pattern s) \<Longrightarrow>
   \<exists>found. first_matching_preset py r ps = Inr found"
proof (induction ps)
  case Nil
  then show ?case by simp
next
  case (Cons p ps)
  from Cons.prems have "\<forall>(column, pattern)\<in>set (conditions p). \<forall>s. \<not> isl (re_match_ic py pattern s)"
    by simp
  from conditions_hold_total [OF this] obtain b where hd: "is_preset_matched py r p = Inr b"
    unfolding is_preset_matched_def by blast
  from Cons.prems have "\<forall>p\<in>set ps. \<forall>(column, pattern)\<in>set (conditions p).
      \<forall>s. \<not> isl (re_match_ic py pattern s)" by simp
  from Cons.IH [OF this] obtain found where tl: "first_matching_preset py r ps = Inr found" ..
  from hd tl show ?case by (cases b) auto
qed

lemma preset_rows_total:
  "\<forall>p\<in>set ps. \<forall>(column, pattern)\<in>set (conditions p). \<forall>s. \<not> isl (re_match_ic py pattern s) \<Longrightarrow>
   \<exists>rows. preset_rows py ps rs = Inr rows"
proof (induction rs)
  case Nil
  then show ?case by simp
next
  case (Cons r rs)
  from first_matching_preset_total [OF Cons.prems] obtain found where
    "first_matching_preset py r ps = Inr found" by blast
  moreover from Cons obtain rows where "preset_rows py ps rs = Inr rows" by blast
  ultimately show ?case by simp
qed

lemma compare_to_presets_total:
  "\<forall>p\<in>set ps. \<forall>(column, pattern)\<in>set (conditions p). \<forall>s. \<not> isl (re_match_ic py pattern s) \<Longrightarrow>
   \<exists>df'. compare_to_presets py ps df = Inr df'"
proof -
  assume a: "\<forall>p\<in>set ps. \<forall>(column, pattern)\<in>set (conditions p). \<forall>s. \<not> isl (re_match_ic py pattern s)"
  from preset_rows_total [OF a] obtain rows where
    "preset_rows py ps (map (\<lambda>r. set_col r ''has_preset'' (BoolV False)) df) = Inr rows"
    by blast
  then show ?thesis by (simp add: compare_to_presets_def)
qed

lemma compare_to_presets_length:
  "compare_to_presets py presets df = Inr df' \<Longrightarrow> length df' = length df"
  by (auto simp: compare_to_presets_def Let_def split: sum.splits dest!: preset_rows_nth)

lemma missing_field_empty:
  "series_item bt column = None \<Longrightarrow> py_str py (series_get bt column (StrV [])) = []"
  by (simp add: series_get_def)

text \<open>
  Claim C3. A preset matches a transaction exactly when every one of its
  (field, pattern) conditions finds a match (case-insensitive, anchored at the start,
  as \<open>re_match_ic\<close> stands for) on the string form of the field, where a field the
  row does not have reads as the empty string. When the preset pass returns, every
  row either carries the label (note, category name, type) of the first preset of the
  list that matches it, all presets before that one not matching, or no preset
  matches it, \<^verbatim>\<open>has_preset\<close> is false and no label was written to it (a label column
  the pass had to create holds the missing value there). The pass returns whenever
  the patterns of the presets compile.
\<close>

theorem preset_pass_first_match:
  "(is_preset_matched py bt p0 = Inr True \<longleftrightarrow>
      (\<forall>(column, pattern)\<in>set (conditions p0).
         re_match_ic py pattern (py_str py (series_get bt column (StrV []))) = Inr True)) \<and>
   (series_item bt column0 = None \<longrightarrow> py_str py (series_get bt column0 (StrV [])) = []) \<and>
   (compare_to_presets py presets df = Inr df' \<longrightarrow>
      length df' = length df \<and>
      (\<forall>i<length df.
         (\<exists>pre p post.
            presets = pre @ p # post \<and>
            is_preset_matched py (set_col (df ! i) ''has_preset'' (BoolV False)) p = Inr True \<and>
            (\<forall>q\<in>set pre.
               is_preset_matched py (set_col (df ! i) ''has_preset'' (BoolV False)) q = Inr False) \<and>
            b_extra (df' ! i) ''has_preset'' = Some (BoolV True) \<and>
            b_extra (df' ! i) ''note'' = Some (l_note (label p)) \<and>
            b_extra (df' ! i) ''category_name'' = Some (l_category_name (label p)) \<and>
            b_extra (df' ! i) ''type'' = Some (l_type (label p))) \<or>
         ((\<forall>q\<in>set presets.
             is_preset_matched py (set_col (df ! i) ''has_preset'' (BoolV False)) q = Inr False) \<and>
          b_extra (df' ! i) ''has_preset'' = Some (BoolV False) \<and>
          (\<forall>c\<in>{''note'', ''category_name'', ''type''}.
             b_extra (df' ! i) c = b_extra (df ! i) c \<or>
             (b_extra (df ! i) c = None \<and> b_extra (df' ! i) c = Some NaN))))) \<and>
   ((\<forall>p\<in>set presets. \<forall>(column, pattern)\<in>set (conditions p).
        \<forall>s. \<not> isl (re_match_ic py pattern s)) \<longrightarrow>
      (\<exists>rows. compare_to_presets py presets df = Inr rows))"
proof (intro conjI impI allI)
  show "is_preset_matched py bt p0 = Inr True \<longleftrightarrow>
      (\<forall>(column, pattern)\<in>set (conditions p0).
         re_match_ic py pattern (py_str py (series_get bt column (StrV []))) = Inr True)"
    unfolding is_preset_matched_def by (rule conditions_hold_True_iff)
next
  assume "series_item bt column0 = None"
  then show "py_str py (series_get bt column0 (StrV [])) = []" by (rule missing_field_empty)
next
  assume "compare_to_presets py presets df = Inr df'"
  then show "length df' = length df" by (rule compare_to_presets_length)
next
  fix i
  assume "compare_to_presets py presets df = Inr df'" "i < length df"
  from compare_to_presets_row [OF this]
  show "(\<exists>pre p post.
            presets = pre @ p # post \<and>
            is_preset_matched py (set_col (df ! i) ''has_preset'' (BoolV False)) p = Inr True \<and>
            (\<forall>q\<in>set pre.
               is_preset_matched py (set_col (df ! i) ''has_preset'' (BoolV False)) q = Inr False) \<and>
            b_extra (df' ! i) ''has_preset'' = Some (BoolV True) \<and>
            b_extra (df' ! i) ''note'' = Some (l_note (label p)) \<and>
            b_extra (df' ! i) ''category_name'' = Some (l_category_name (label p)) \<and>
            b_extra (df' ! i) ''type'' = Some (l_type (label p))) \<or>
         ((\<forall>q\<in>set presets.
             is_preset_matched py (set_col (df ! i) ''has_preset'' (BoolV False)) q = Inr False) \<and>
          b_extra (df' ! i) ''has_preset'' = Some (BoolV False) \<and>
          (\<forall>c\<in>{''note'', ''category_name'', ''type''}.
             b_extra (df' ! i) c = b_extra (df ! i) c \<or>
             (b_extra (df ! i) c = None \<and> b_extra (df' ! i) c = Some NaN)))" .
next
  assume "\<forall>p\<in>set presets. \<forall>(column, pattern)\<in>set (conditions p).
        \<forall>s. \<not> isl (re_match_ic py pattern s)"
  then show "\<exists>rows. compare_to_presets py presets df = Inr rows"
    by (rule compare_to_presets_total)
qed

text \<open>
  The cross-row case: one ledger row shares only the amount with the bank
  transaction, another only the date, and the bank transaction is flagged.
\<close>

theorem dedup_marks_amount_and_date_separately_witness:
  "map (\<lambda>r. b_extra r ''is_in_ml'')
     (check_if_already_added [same_amount_row, same_date_row] [coffee_row]) = [Some (BoolV True)] \<and>
   isin_eq (b_amount coffee_row) (ml_amount same_amount_row) \<and>
   \<not> isin_eq (b_date coffee_row) (ml_date same_amount_row) \<and>
   \<not> isin_eq (b_amount coffee_row) (ml_amount same_date_row) \<and>
   isin_eq (b_date coffee_row) (ml_date same_date_row)"
  using dedup_marks_amount_and_date_separately [of "[same_amount_row, same_date_row]" "[coffee_row]"]
  by (simp add: isin_eq_def coffee_row_def same_amount_row_def same_date_row_def)

text \<open>
  Two presets that both match the sample row, one of them through a column the row
  does not have and an empty pattern: the row gets the label of the one listed first.
\<close>

theorem preset_pass_first_match_witness:
  "is_preset_matched sample_py coffee_row card_preset = Inr True \<and>
   is_preset_matched sample_py coffee_row coffee_preset = Inr True \<and>
   series_item coffee_row ''missing column'' = None \<and>
   py_str sample_py (series_get coffee_row ''missing column'' (StrV [])) = [] \<and>
   (\<exists>row. compare_to_presets sample_py [card_preset, coffee_preset] [coffee_row] = Inr [row] \<and>
      b_extra row ''has_preset'' = Some (BoolV True) \<and>
      b_extra row ''note'' = Some (StrV ''Card payment'') \<and>
      b_extra row ''category_name'' = Some (StrV ''Other'') \<and>
      b_extra row ''type'' = Some (StrV ''expense'')) \<and>
   (\<exists>row. compare_to_presets sample_py [] [coffee_row] = Inr [row] \<and>
      b_extra row ''has_preset'' = Some (BoolV False) \<and>
      b_extra row ''note'' = None)"
proof -
  have conds: "\<forall>(column, pattern)\<in>set (conditions card_preset).
      re_match_ic sample_py pattern (py_str sample_py (series_get coffee_row column (StrV []))) =
      Inr True"
    by code_simp
  have m1: "is_preset_matched sample_py coffee_row card_preset = Inr True"
    using preset_pass_first_match
      [where py = sample_py and bt = coffee_row and ?p0.0 = card_preset, THEN conjunct1] conds
    by (rule iffD2)
  have m2: "is_preset_matched sample_py coffee_row coffee_preset = Inr True"
    by code_simp
  have s1: "series_item coffee_row ''missing column'' = None"
    by code_simp
  have s2: "py_str sample_py (series_get coffee_row ''missing column'' (StrV [])) = []"
    by (simp add: series_get_def s1)
  let ?r = "set_col coffee_row ''has_preset'' (BoolV False)"
  have m1': "is_preset_matched sample_py ?r card_preset = Inr True"
    by code_simp
  have c1: "compare_to_presets sample_py [card_preset, coffee_preset] [coffee_row] =
              Inr [write_label ?r card_preset]"
  proof -
    have fm: "first_matching_preset sample_py ?r [card_preset, coffee_preset] =
                Inr (Some card_preset)"
      by (simp add: m1')
    have pr: "preset_rows sample_py [card_preset, coffee_preset] [?r] =
                Inr [write_label ?r card_preset]"
      by (simp add: m1')
    have fl: "fill_column ''type'' (fill_column ''category_name'' (fill_column ''note''
                [write_label ?r card_preset])) = [write_label ?r card_preset]"
      by (simp add: fill_column_def write_label_def set_col_def)
    show ?thesis by (simp add: compare_to_presets_def pr fl del: preset_rows.simps)
  qed
  have c2: "compare_to_presets sample_py [] [coffee_row] = Inr [?r]"
  proof -
    have fl: "fill_column ''type'' (fill_column ''category_name'' (fill_column ''note'' [?r])) =
                [?r]"
      by (simp add: fill_column_def set_col_def coffee_row_def)
    show ?thesis by (simp add: compare_to_presets_def fl)
  qed
  have e1: "\<exists>row. compare_to_presets sample_py [card_preset, coffee_preset] [coffee_row] = Inr [row] \<and>
      b_extra row ''has_preset'' = Some (BoolV True) \<and>
      b_extra row ''note'' = Some (StrV ''Card payment'') \<and>
      b_extra row ''category_name'' = Some (StrV ''Other'') \<and>
      b_extra row ''type'' = Some (StrV ''expense'')"
    unfolding c1 by (simp add: write_label_def set_col_def card_preset_def)
  have e2: "\<exists>row. compare_to_presets sample_py [] [coffee_row] = Inr [row] \<and>
      b_extra row ''has_preset'' = Some (BoolV False) \<and>
      b_extra row ''note'' = None"
    unfolding c2 by (simp add: set_col_def coffee_row_def)
  from m1 m2 s1 s2 e1 e2 show ?thesis by (intro conjI)
qed

section \<open>Category ids, the automatic transfer and manual entry: properties\<close>

lemma get_category_id_world:
  "stdin (snd (get_category_id mm n t w)) = stdin w"
  "posted (snd (get_category_id mm n t w)) = posted w"
  by (simp_all add: get_category_id_def split: list.splits)

lemma get_category_id_none:
  "\<forall>c\<in>set (mm_categories_file mm). \<not> category_matches mm n t c \<Longrightarrow>
   get_category_id mm n t w = (Inl ValueError, w)"
  by (simp add: get_category_id_def)

lemma get_category_id_first:
  assumes "mm_categories_file mm = pre @ c # post" "category_matches mm n t c"
    "\<forall>x\<in>set pre. \<not> category_matches mm n t x"
  shows "get_category_id mm n t w =
     (Inr (c_id c),
      if \<exists>y\<in>set post. category_matches mm n t y
      then w\<lparr>stdout := stdout w @
             [IdMatches (Suc (length (filter (category_matches mm n t) post))) n]\<rparr>
      else w)"
proof -
  from assms have f: "filter (category_matches mm n t) (mm_categories_file mm) =
      c # filter (category_matches mm n t) post"
    by simp
  have "(filter (category_matches mm n t) post \<noteq> []) = (\<exists>y\<in>set post. category_matches mm n t y)"
    by (simp add: filter_empty_conv)
  then show ?thesis
    by (simp add: get_category_id_def f)
qed

text \<open>
  Claim C5. \<^verbatim>\<open>_get_category_id\<close> raises \<^verbatim>\<open>ValueError\<close> when no row of the categories
  file matches the name, the type and the active wallet. When rows match it does not
  raise: it returns the id of the first matching row in file order, and when more rows
  match after that one it prints the number of matches first.
\<close>

theorem category_id_resolution:
  "((\<forall>c\<in>set (mm_categories_file mm). \<not> category_matches mm category_name category_type c) \<longrightarrow>
      get_category_id mm category_name category_type w = (Inl ValueError, w)) \<and>
   (mm_categories_file mm = pre @ c # post \<and> category_matches mm category_name category_type c \<and>
    (\<forall>x\<in>set pre. \<not> category_matches mm category_name category_type x) \<longrightarrow>
      get_category_id mm category_name category_type w =
        (Inr (c_id c),
         if \<exists>y\<in>set post. category_matches mm category_name category_type y
         then w\<lparr>stdout := stdout w @
                [IdMatches (Suc (length (filter (category_matches mm category_name category_type) post)))
                   category_name]\<rparr>
         else w))"
  using get_category_id_none get_category_id_first by blast

text \<open>
  Against the sample file: no category is called Other; two categories of the active
  wallet are called Food, and the first one's id comes back with a printed line.
\<close>

theorem category_id_resolution_witness:
  "get_category_id sample_mm (StrV ''Other'') (StrV ''expense'') (quiet_world []) =
     (Inl ValueError, quiet_world []) \<and>
   get_category_id sample_mm (StrV ''Food'') (StrV ''expense'') (quiet_world []) =
     (Inr (StrV ''c1''), (quiet_world [])\<lparr>stdout := [IdMatches 2 (StrV ''Food'')]\<rparr>)"
proof -
  have none: "\<forall>c\<in>set (mm_categories_file sample_mm).
      \<not> category_matches sample_mm (StrV ''Other'') (StrV ''expense'') c"
    by code_simp
  have split: "mm_categories_file sample_mm = [foreign_food] @ food # [groceries, food_again]"
    by (simp add: sample_mm_def)
  have hit: "category_matches sample_mm (StrV ''Food'') (StrV ''expense'') food"
    by code_simp
  have before: "\<forall>x\<in>set [foreign_food]. \<not> category_matches sample_mm (StrV ''Food'') (StrV ''expense'') x"
    by code_simp
  have after: "\<exists>y\<in>set [groceries, food_again].
      category_matches sample_mm (StrV ''Food'') (StrV ''expense'') y"
    by code_simp
  have count: "Suc (length (filter (category_matches sample_mm (StrV ''Food'') (StrV ''expense''))
      [groceries, food_again])) = 2"
    by code_simp
  have idc: "c_id food = StrV ''c1''" by (simp add: food_def)
  note t = category_id_resolution [where mm = sample_mm and w = "quiet_world []"]
  from t [where category_name = "StrV ''Other''" and category_type = "StrV ''expense''",
      THEN conjunct1] none
  have a: "get_category_id sample_mm (StrV ''Other'') (StrV ''expense'') (quiet_world []) =
     (Inl ValueError, quiet_world [])" by blast
  from t [where category_name = "StrV ''Food''" and category_type = "StrV ''expense''"
      and pre = "[foreign_food]" and c = food and post = "[groceries, food_again]",
      THEN conjunct2] split hit before
  have "get_category_id sample_mm (StrV ''Food'') (StrV ''expense'') (quiet_world []) =
     (Inr (c_id food),
      if \<exists>y\<in>set [groceries, food_again].
            category_matches sample_mm (StrV ''Food'') (StrV ''expense'') y
      then (quiet_world [])\<lparr>stdout := stdout (quiet_world []) @
            [IdMatches (Suc (length (filter
               (category_matches sample_mm (StrV ''Food'') (StrV ''expense''))
               [groceries, food_again]))) (StrV ''Food'')]\<rparr>
      else quiet_world [])" by blast
  then have b: "get_category_id sample_mm (StrV ''Food'') (StrV ''expense'') (quiet_world []) =
     (Inr (StrV ''c1''), (quiet_world [])\<lparr>stdout := [IdMatches 2 (StrV ''Food'')]\<rparr>)"
    unfolding count idc using after by (simp add: quiet_world_def)
  from a b show ?thesis by (rule conjI)
qed

text \<open>
  Claim C6, at the input where the code departs from it. Three rows go to the
  automatic transfer; the category of the second does not resolve. The run ends in the
  \<^verbatim>\<open>ValueError\<close> of \<^verbatim>\<open>_get_category_id\<close>, the first row was posted, the third was never
  tried, and nothing was printed about the category: the handler that prints its name
  is an \<^verbatim>\<open>except KeyError\<close>.
\<close>

theorem unresolved_category_aborts_without_print:
  "transfer_from_presets sample_mm accepting_remote
     [(0, coffee_labelled), (1, card_labelled), (2, coffee_labelled)] (quiet_world []) =
   (Inl ValueError,
    \<lparr>stdin = [],
     stdout = [IdMatches 2 (StrV ''Food''), RowAdded 0 (StrV ''Coffee'') (FltV (-25/2))],
     posted = [\<lparr>p_wallet_id = StrV ''w1'', p_category_id = StrV ''c1'', p_amount = FltV (-25/2),
                p_date = TsV 20240305, p_note = StrV ''Coffee''\<rparr>]\<rparr>)"
proof -
  have g1: "get_category_id sample_mm (StrV ''Food'') (StrV ''expense'') w =
      (Inr (StrV ''c1''), w\<lparr>stdout := stdout w @ [IdMatches 2 (StrV ''Food'')]\<rparr>)" for w
  proof -
    have "filter (category_matches sample_mm (StrV ''Food'') (StrV ''expense''))
            (mm_categories_file sample_mm) = [food, food_again]" by code_simp
    then show ?thesis by (simp add: get_category_id_def food_def)
  qed
  have g2: "get_category_id sample_mm (StrV ''Other'') (StrV ''expense'') w = (Inl ValueError, w)"
    for w
  proof -
    have "filter (category_matches sample_mm (StrV ''Other'') (StrV ''expense''))
            (mm_categories_file sample_mm) = []" by code_simp
    then show ?thesis by (simp add: get_category_id_def)
  qed
  have i1: "series_item coffee_labelled ''category_name'' = Some (StrV ''Food'')"
    "series_item coffee_labelled ''type'' = Some (StrV ''expense'')"
    "series_item coffee_labelled ''note'' = Some (StrV ''Coffee'')"
    "b_amount coffee_labelled = FltV (-25/2)" "b_date coffee_labelled = TsV 20240305"
    by (simp_all add: coffee_labelled_def write_label_def set_col_def series_item_def
          coffee_preset_def coffee_row_def)
  have i2: "series_item card_labelled ''category_name'' = Some (StrV ''Other'')"
    "series_item card_labelled ''type'' = Some (StrV ''expense'')"
    by (simp_all add: card_labelled_def write_label_def set_col_def series_item_def
          card_preset_def)
  have wallet: "mm_wallet_id sample_mm = StrV ''w1''" by (simp add: sample_mm_def)
  have p1: "create_payload_from_preset sample_mm coffee_labelled w =
      (Inr \<lparr>p_wallet_id = StrV ''w1'', p_category_id = StrV ''c1'', p_amount = FltV (-25/2),
            p_date = TsV 20240305, p_note = StrV ''Coffee''\<rparr>,
       w\<lparr>stdout := stdout w @ [IdMatches 2 (StrV ''Food'')]\<rparr>)" for w
    by (simp add: create_payload_from_preset_def i1 g1 create_payload_def wallet)
  have p2: "create_payload_from_preset sample_mm card_labelled w = (Inl ValueError, w)" for w
    by (simp add: create_payload_from_preset_def i2 g2)
  show ?thesis
    by (simp add: p1 p2 add_transaction_def accepting_remote_def quiet_world_def)
qed


lemma fill_manually_posts:
  "posted (snd (fill_manually py mm rem id_num bt w)) = posted w \<or>
   (\<exists>category_id note.
      posted (snd (fill_manually py mm rem id_num bt w)) =
        posted w @ [create_payload mm category_id bt (StrV note)])"
proof -
  obtain r1 ins1 where c1: "choose_transaction_type (stdin w) = (r1, ins1)" by force
  show ?thesis
  proof (cases r1)
    case (Inl e)
    with c1 show ?thesis by (simp add: fill_manually_def on_stdin_def)
  next
    case (Inr ty_opt)
    show ?thesis
    proof (cases ty_opt)
      case None
      with c1 Inr show ?thesis by (simp add: fill_manually_def on_stdin_def)
    next
      case (Some ty)
      let ?cats = "filter (\<lambda>c. py_eq (c_type c) (StrV ty)) (mm_wallet_categories mm)"
      obtain r2 ins2 where c2: "choose_category py ?cats ins1 = (r2, ins2)" by force
      show ?thesis
      proof (cases r2)
        case (Inl e)
        with c1 c2 Inr Some show ?thesis by (simp add: fill_manually_def on_stdin_def)
      next
        case r2: (Inr cat_opt)
        show ?thesis
        proof (cases cat_opt)
          case None
          with c1 c2 Inr Some r2 show ?thesis by (simp add: fill_manually_def on_stdin_def)
        next
          case cat: (Some category)
          let ?w2 = "w\<lparr>stdin := ins2\<rparr>"
          obtain r3 w3 where c3: "get_category_id mm category (StrV ty) ?w2 = (r3, w3)" by force
          from get_category_id_world [of mm category "StrV ty" ?w2] c3
          have w3: "stdin w3 = ins2" "posted w3 = posted w" by simp_all
          show ?thesis
          proof (cases r3)
            case (Inl e)
            with c1 c2 c3 Inr Some r2 cat w3 show ?thesis
              by (simp add: fill_manually_def on_stdin_def)
          next
            case cid: (Inr category_id)
            show ?thesis
            proof (cases ins2)
              case Nil
              with c1 c2 c3 Inr Some r2 cat w3 cid show ?thesis
                by (simp add: fill_manually_def on_stdin_def input_line_def)
            next
              case (Cons typed ins3)
              with c1 c2 c3 Inr Some r2 cat w3 cid
              have "posted (snd (fill_manually py mm rem id_num bt w)) =
                      posted w @ [create_payload mm category_id bt (StrV typed)]"
                by (simp add: fill_manually_def on_stdin_def input_line_def add_transaction_def
                      Let_def split: option.splits)
              then show ?thesis by blast
            qed
          qed
        qed
      qed
    qed
  qed
qed




section \<open>The category selector: properties\<close>




lemma set_drop_duplicates_by: "set (drop_duplicates_by f xs) \<subseteq> set xs"
  by (induction f xs rule: drop_duplicates_by.induct) auto









lemma get_children_subset:
  assumes "get_children py cats s = Inr subs"
  shows "set subs \<subseteq> c_name ` set cats"
proof (cases "filter (\<lambda>c. py_eq (c_name c) s) cats")
  case Nil
  with assms show ?thesis by (simp add: get_children_def)
next
  case (Cons p ps)
  let ?kids = "map c_name (filter (\<lambda>c. py_eq (c_parent c) (StrV (py_str py (c_id p)))) cats)"
  from assms Cons have "subs = drop_duplicates_by id ?kids"
    by (simp add: get_children_def Let_def)
  with set_drop_duplicates_by [of id ?kids] show ?thesis by auto
qed

lemma select_subcategory_result:
  "select_subcategory subs sel ins = (Inr (Some v, sel'), rest) \<Longrightarrow>
   sel' = Some v \<and> (v \<in> set subs \<or> sel = Some v)"
  by (induction subs sel ins rule: select_subcategory.induct)
     (auto simp: Let_def split: if_splits)

lemma category_selected_name:
  assumes "category_selected py cats sel ins = (Inr (True, Some n), rest)"
  shows "n \<in> c_name ` set cats"
proof (cases ins)
  case Nil
  with assms show ?thesis by (simp add: category_selected_def)
next
  case (Cons u more)
  show ?thesis
  proof (cases "isdigit u")
    case False
    with assms Cons show ?thesis
      by (simp add: category_selected_def split: if_splits)
  next
    case True
    let ?parents = "parent_categories cats"
    let ?i = "int_of_str u"
    show ?thesis
    proof (cases "?i < length ?parents")
      case False
      with assms Cons True show ?thesis
        by (simp add: category_selected_def Let_def)
    next
      case inr: True
      let ?selected = "c_name (?parents ! ?i)"
      from inr have "?parents ! ?i \<in> set ?parents" by (rule nth_mem)
      then have sel_in: "?selected \<in> c_name ` set cats"
        by (auto simp: parent_categories_def)
      show ?thesis
      proof (cases "get_children py cats ?selected")
        case (Inl e)
        with assms Cons True inr show ?thesis
          by (simp add: category_selected_def Let_def)
      next
        case (Inr subs)
        note subs_in = get_children_subset [OF Inr]
        show ?thesis
        proof (cases "subs = []")
          case empty: True
          with assms Cons True inr Inr sel_in show ?thesis
            by (simp add: category_selected_def Let_def)
        next
          case nonempty: False
          obtain r rest' where s: "select_subcategory subs (Some ?selected) more = (r, rest')"
            by force
          show ?thesis
          proof (cases r)
            case (Inl e)
            with assms Cons True inr Inr nonempty s show ?thesis
              by (simp add: category_selected_def Let_def)
          next
            case res: (Inr pair)
            obtain result sel' where pair: "pair = (result, sel')" by force
            from assms Cons True inr Inr nonempty s res pair
            have fin: "(case result of None \<Rightarrow> False | Some v \<Rightarrow> truthy v)" and
              out: "sel' = Some n"
              by (simp_all add: category_selected_def Let_def)
            from fin obtain v where v: "result = Some v" by (cases result) auto
            from select_subcategory_result [OF s [unfolded res pair v]] out
            have "n = v" "v \<in> set subs \<or> ?selected = v" by auto
            with subs_in sel_in show ?thesis by auto
          qed
        qed
      qed
    qed
  qed
qed

lemma run_loop_name:
  "run_loop py cats sel ins = (Inr (Some n), rest) \<Longrightarrow> n \<in> c_name ` set cats"
proof (induction py cats sel ins rule: run_loop.induct)
  case (1 py cats sel ins)
  obtain r more where c: "category_selected py cats sel ins = (r, more)" by force
  show ?case
  proof (cases r)
    case (Inl e)
    with c "1.prems" show ?thesis by (subst (asm) run_loop.simps) simp
  next
    case (Inr pair)
    obtain finished sel' where pair: "pair = (finished, sel')" by force
    show ?thesis
    proof (cases finished)
      case True
      with c Inr pair "1.prems" have "sel' = Some n"
        by (subst (asm) run_loop.simps) simp
      with c Inr pair True show ?thesis by (auto dest: category_selected_name)
    next
      case False
      with c Inr pair "1.prems" have "run_loop py cats sel' more = (Inr (Some n), rest)"
        by (subst (asm) run_loop.simps) simp
      with "1.IH" c Inr pair False show ?thesis by auto
    qed
  qed
qed

text \<open>
  Claim C10. When the category selection returns a name (rather than \<^verbatim>\<open>None\<close> for a
  skipped transaction), the name is the \<^verbatim>\<open>name\<close> field of a row of the table the
  selector was given. The loop is a total function of the typed lines here: on a
  finite input it returns or ends in \<^verbatim>\<open>EOFError\<close>.
\<close>

theorem choose_category_returns_listed_name:
  "choose_category py categories ins = (Inr (Some n), rest) \<Longrightarrow> n \<in> c_name ` set categories"
proof -
  assume "choose_category py categories ins = (Inr (Some n), rest)"
  then have "n \<in> c_name ` set (drop_duplicates_by c_name categories)"
    unfolding choose_category_def by (rule run_loop_name)
  with set_drop_duplicates_by [of c_name categories] show ?thesis by auto
qed

text \<open>
  Two runs: an index out of range, then parent 0 and child 0; and an index out of
  range, then \<^verbatim>\<open>s\<close> to skip.
\<close>

theorem choose_category_returns_listed_name_witness:
  "choose_category sample_py [food, groceries, food_again] [''1'', ''0'', ''0''] =
     (Inr (Some (StrV ''Groceries'')), []) \<and>
   StrV ''Groceries'' \<in> c_name ` set [food, groceries, food_again] \<and>
   choose_category sample_py [food, groceries, food_again] [''7'', ''s'', ''0''] =
     (Inr None, [''0''])"
proof -
  have a: "choose_category sample_py [food, groceries, food_again] [''1'', ''0'', ''0''] =
     (Inr (Some (StrV ''Groceries'')), [])" by code_simp
  have b: "choose_category sample_py [food, groceries, food_again] [''7'', ''s'', ''0''] =
     (Inr None, [''0''])" by code_simp
  from choose_category_returns_listed_name [OF a] a b show ?thesis by (intro conjI)
qed

section \<open>The classification of the rows and the transfer: properties\<close>

lemma check_if_already_added_map:
  "check_if_already_added ledger bank =
     map (\<lambda>r. set_col r ''is_in_ml'' (BoolV (in_ledger ledger r))) bank"
  by (simp add: check_if_already_added_def isin_def Let_def)

lemma fill_column_base:
  "i < length rows \<Longrightarrow>
   b_amount (fill_column c rows ! i) = b_amount (rows ! i) \<and>
   b_date (fill_column c rows ! i) = b_date (rows ! i)"
  by (simp add: fill_column_def set_col_def)

lemma fill_column_other:
  "i < length rows \<Longrightarrow> c' \<noteq> c \<Longrightarrow>
   b_extra (fill_column c rows ! i) c' = b_extra (rows ! i) c'"
  by (simp add: fill_column_nth)

lemma write_label_keeps:
  "b_amount (write_label r p) = b_amount r" "b_date (write_label r p) = b_date r"
  "b_extra (write_label r p) ''is_in_ml'' = b_extra r ''is_in_ml''"
  by (simp_all add: write_label_def set_col_def)

lemma compare_to_presets_keeps:
  assumes ok: "compare_to_presets py presets df = Inr df'" and i: "i < length df"
  shows "b_amount (df' ! i) = b_amount (df ! i)" "b_date (df' ! i) = b_date (df ! i)"
    "b_extra (df' ! i) ''is_in_ml'' = b_extra (df ! i) ''is_in_ml''"
proof -
  let ?df1 = "map (\<lambda>r. set_col r ''has_preset'' (BoolV False)) df"
  let ?r = "set_col (df ! i) ''has_preset'' (BoolV False)"
  from ok obtain rows where
    rows: "preset_rows py presets ?df1 = Inr rows" and
    df': "df' = fill_column ''type'' (fill_column ''category_name'' (fill_column ''note'' rows))"
    by (auto simp: compare_to_presets_def Let_def split: sum.splits)
  have d1: "?df1 ! i = ?r" using i by simp
  from preset_rows_nth [OF rows] i have len: "length rows = length df" and
    "\<exists>found. first_matching_preset py (?df1 ! i) presets = Inr found \<and>
        rows ! i = (case found of None \<Rightarrow> ?df1 ! i | Some p \<Rightarrow> write_label (?df1 ! i) p)"
    by auto
  then obtain found where
    ri: "rows ! i = (case found of None \<Rightarrow> ?r | Some p \<Rightarrow> write_label ?r p)"
    unfolding d1 by blast
  have base: "b_amount (rows ! i) = b_amount (df ! i)" "b_date (rows ! i) = b_date (df ! i)"
    "b_extra (rows ! i) ''is_in_ml'' = b_extra (df ! i) ''is_in_ml''"
    unfolding ri by (cases found; simp add: write_label_keeps set_col_def)+
  from i len have il: "i < length rows" by simp
  from il base show "b_amount (df' ! i) = b_amount (df ! i)" "b_date (df' ! i) = b_date (df ! i)"
    unfolding df' by (simp_all add: fill_column_base)
  from il base show "b_extra (df' ! i) ''is_in_ml'' = b_extra (df ! i) ''is_in_ml''"
    unfolding df' by (simp add: fill_column_other)
qed

lemma compare_to_presets_flag:
  assumes ok: "compare_to_presets py presets df = Inr df'" and i: "i < length df"
  shows "flag (df' ! i) ''has_preset'' =
     (\<exists>p\<in>set presets.
        is_preset_matched py (set_col (df ! i) ''has_preset'' (BoolV False)) p = Inr True)"
  using compare_to_presets_row [OF ok i]
  by (auto simp: flag_def)


lemma conditions_hold_cong:
  "\<forall>c\<in>set conds. series_item r (fst c) = series_item r' (fst c) \<Longrightarrow>
   conditions_hold py r conds = conditions_hold py r' conds"
  by (induction conds) (auto simp: series_get_def split: sum.splits)

lemma series_item_set_col:
  "c \<noteq> k \<Longrightarrow> k \<notin> {''date'', ''name'', ''account'', ''counterparty'', ''code'', ''debit/credit'',
      ''amount'', ''transaction type'', ''notifications''} \<Longrightarrow>
   series_item (set_col r k v) c = series_item r c"
  by (simp add: series_item_def set_col_def)

lemma is_preset_matched_flags:
  assumes "\<forall>c\<in>set (conditions p). fst c \<noteq> ''is_in_ml'' \<and> fst c \<noteq> ''has_preset''"
  shows "is_preset_matched py (set_col (set_col r ''is_in_ml'' v) ''has_preset'' v') p =
         is_preset_matched py r p"
  unfolding is_preset_matched_def
proof (rule conditions_hold_cong, rule ballI)
  fix c assume "c \<in> set (conditions p)"
  with assms have "fst c \<noteq> ''is_in_ml''" "fst c \<noteq> ''has_preset''" by auto
  then show "series_item (set_col (set_col r ''is_in_ml'' v) ''has_preset'' v') (fst c) =
      series_item r (fst c)"
    by (simp add: series_item_set_col)
qed

lemma in_transactions_to_add:
  "(x \<in> set (transactions_to_add df)) =
     (fst x < length df \<and> snd x = df ! fst x \<and>
      \<not> flag (snd x) ''is_in_ml'' \<and> flag (snd x) ''has_preset'')"
  by (cases x) (auto simp: transactions_to_add_def in_set_enumerate_eq)

lemma in_remaining_rows:
  "(x \<in> set (remaining_rows df)) =
     (fst x < length df \<and> snd x = df ! fst x \<and>
      \<not> flag (snd x) ''is_in_ml'' \<and> \<not> flag (snd x) ''has_preset'')"
  by (cases x) (auto simp: remaining_rows_def in_set_enumerate_eq)

lemma from_row_create_payload: "from_row mm r (create_payload mm cid r n)"
  by (simp add: create_payload_def)

lemma create_payload_from_preset_result:
  assumes "create_payload_from_preset mm r w = (res, w')"
  shows "posted w' = posted w" "res = Inr p \<Longrightarrow> from_row mm r p"
proof -
  have g: "\<And>c t a b. get_category_id mm c t w = (a, b) \<Longrightarrow> posted b = posted w"
    using get_category_id_world(2) [of mm _ _ w] by (metis snd_conv)
  show "posted w' = posted w"
    using assms g
    by (auto simp: create_payload_from_preset_def split: option.splits sum.splits prod.splits)
  show "res = Inr p \<Longrightarrow> from_row mm r p"
    using assms
    by (auto simp: create_payload_from_preset_def from_row_create_payload
        split: option.splits sum.splits prod.splits)
qed

lemma transfer_from_presets_posts:
  "\<exists>ps. posted (snd (transfer_from_presets mm rem rows w)) = posted w @ ps \<and>
        (\<forall>p\<in>set ps. \<exists>x\<in>set rows. from_row mm (snd x) p) \<and>
        (fst (transfer_from_presets mm rem rows w) = Inr () \<longrightarrow>
           list_all2 (\<lambda>x p. from_row mm (snd x) p) rows ps)"
proof (induction rows arbitrary: w)
  case Nil
  show ?case by simp
next
  case (Cons x rest)
  obtain idx r where x: "x = (idx, r)" by (cases x)
  obtain res w1 where cp: "create_payload_from_preset mm r w = (res, w1)" by force
  note w1 = create_payload_from_preset_result(1) [OF cp]
  show ?case
  proof (cases res)
    case (Inl e)
    with cp x w1 show ?thesis by simp
  next
    case (Inr p)
    with cp have fr: "from_row mm r p" by (simp add: create_payload_from_preset_result(2))
    show ?thesis
    proof (cases "add_result rem p")
      case (Some e)
      have "posted (snd (transfer_from_presets mm rem (x # rest) w)) = posted w @ [p]"
        "fst (transfer_from_presets mm rem (x # rest) w) = Inl e"
        using cp x Inr Some w1 by (simp_all add: add_transaction_def)
      with fr x show ?thesis by (intro exI [of _ "[p]"]) simp
    next
      case None
      let ?w2 = "w1\<lparr>posted := posted w1 @ [p], stdout := stdout w1 @ [RowAdded idx (p_note p) (p_amount p)]\<rparr>"
      have step: "transfer_from_presets mm rem (x # rest) w = transfer_from_presets mm rem rest ?w2"
        using cp x Inr None by (simp add: add_transaction_def)
      from Cons.IH [of ?w2] obtain ps where
        ps: "posted (snd (transfer_from_presets mm rem rest ?w2)) = posted ?w2 @ ps"
          "\<forall>p\<in>set ps. \<exists>x\<in>set rest. from_row mm (snd x) p"
          "fst (transfer_from_presets mm rem rest ?w2) = Inr () \<longrightarrow>
             list_all2 (\<lambda>x p. from_row mm (snd x) p) rest ps"
        by blast
      show ?thesis
        unfolding step
        using ps fr x w1 by (intro exI [of _ "p # ps"]) auto
    qed
  qed
qed

lemma fill_all_posts:
  "\<exists>ps. posted (snd (fill_all py mm rem rows w)) = posted w @ ps \<and>
        (\<forall>p\<in>set ps. \<exists>x\<in>set rows. from_row mm (snd x) p)"
proof (induction rows arbitrary: w)
  case Nil
  show ?case by simp
next
  case (Cons x rest)
  obtain idx r where x: "x = (idx, r)" by (cases x)
  obtain res w1 where fm: "fill_manually py mm rem idx r w = (res, w1)" by force
  from fill_manually_posts [of py mm rem idx r w] fm
  obtain qs where qs: "posted w1 = posted w @ qs" "\<forall>p\<in>set qs. from_row mm r p"
  proof (elim disjE exE)
    assume "posted (snd (fill_manually py mm rem idx r w)) = posted w"
    with fm have "posted w1 = posted w @ []" "\<forall>p\<in>set []. from_row mm r p" by simp_all
    then show ?thesis by (rule that)
  next
    fix cid n
    assume "posted (snd (fill_manually py mm rem idx r w)) =
        posted w @ [create_payload mm cid r (StrV n)]"
    with fm have "posted w1 = posted w @ [create_payload mm cid r (StrV n)]"
      "\<forall>p\<in>set [create_payload mm cid r (StrV n)]. from_row mm r p"
      by (simp_all add: from_row_create_payload)
    then show ?thesis by (rule that)
  qed
  show ?case
  proof (cases res)
    case (Inl e)
    with fm x qs show ?thesis by (intro exI [of _ qs]) auto
  next
    case (Inr u)
    from Cons.IH [of w1] obtain ps where
      ps: "posted (snd (fill_all py mm rem rest w1)) = posted w1 @ ps"
        "\<forall>p\<in>set ps. \<exists>x\<in>set rest. from_row mm (snd x) p"
      by blast
    with fm x qs Inr show ?thesis by (intro exI [of _ "qs @ ps"]) auto
  qed
qed

lemma yes_no_prompts_posted:
  "posted (snd (prompt_adding rows w)) = posted w"
  "posted (snd (promt_manual_entry rows w)) = posted w"
  by (simp_all add: prompt_adding_def promt_manual_entry_def on_stdin_def split: prod.splits)

lemma transfer_bank_transactions_posts:
  assumes led: "list_transactions rem = Inr ledger"
    and cl: "classify py (mm_presets mm) ledger (mm_bank mm) = Inr tr_df"
  shows "\<exists>auto manual.
      posted (snd (transfer_bank_transactions py mm rem w)) = posted w @ auto @ manual \<and>
      (\<forall>p\<in>set auto. \<exists>x\<in>set (transactions_to_add tr_df). from_row mm (snd x) p) \<and>
      (\<forall>p\<in>set manual. \<exists>x\<in>set (remaining_rows tr_df). from_row mm (snd x) p)"
proof -
  let ?A = "transactions_to_add tr_df" and ?R = "remaining_rows tr_df"
  let ?P = "\<lambda>rows ps. \<forall>p\<in>set ps. \<exists>x\<in>set rows. from_row mm (snd x) p"
  obtain r1 w1 where s1: "prompt_adding ?A w = (r1, w1)" by force
  with yes_no_prompts_posted(1) [of ?A w] have p1: "posted w1 = posted w" by simp
  show ?thesis
  proof (cases r1)
    case (Inl e)
    with s1 led cl p1 have "posted (snd (transfer_bank_transactions py mm rem w)) = posted w @ [] @ []"
      by (simp add: transfer_bank_transactions_def)
    then show ?thesis by (intro exI [of _ "[]"]) simp
  next
    case go: (Inr go)
    obtain r2 w2 where s2:
      "(if go then transfer_from_presets mm rem ?A w1 else (Inr (), w1)) = (r2, w2)" by force
    have "\<exists>auto. posted w2 = posted w1 @ auto \<and> ?P ?A auto"
    proof (cases go)
      case True
      with s2 transfer_from_presets_posts [of mm rem ?A w1] show ?thesis by auto
    next
      case False
      with s2 show ?thesis by simp
    qed
    then obtain auto where a: "posted w2 = posted w @ auto" "?P ?A auto"
      using p1 by auto
    show ?thesis
    proof (cases r2)
      case (Inl e)
      with s1 go s2 led cl a have
        "posted (snd (transfer_bank_transactions py mm rem w)) = posted w @ auto @ []"
        by (simp add: transfer_bank_transactions_def)
      with a show ?thesis by (intro exI [of _ auto] exI [of _ "[]"]) simp
    next
      case u: (Inr u)
      obtain r3 w3 where s3: "promt_manual_entry ?R w2 = (r3, w3)" by force
      with yes_no_prompts_posted(2) [of ?R w2] have p3: "posted w3 = posted w2" by simp
      show ?thesis
      proof (cases r3)
        case (Inl e)
        with s1 go s2 u s3 led cl a p3 have
          "posted (snd (transfer_bank_transactions py mm rem w)) = posted w @ auto @ []"
          by (simp add: transfer_bank_transactions_def)
        with a show ?thesis by (intro exI [of _ auto] exI [of _ "[]"]) simp
      next
        case go': (Inr go')
        obtain r4 w4 where s4:
          "(if go' then fill_all py mm rem ?R w3 else (Inr (), w3)) = (r4, w4)" by force
        have "\<exists>manual. posted w4 = posted w3 @ manual \<and> ?P ?R manual"
        proof (cases go')
          case True
          with s4 fill_all_posts [of py mm rem ?R w3] show ?thesis by auto
        next
          case False
          with s4 show ?thesis by simp
        qed
        then obtain manual where m: "posted w4 = posted w3 @ manual" "?P ?R manual" by auto
        have "snd (transfer_bank_transactions py mm rem w) = w4"
          using s1 go s2 u s3 go' s4 led cl
          by (cases r4) (simp_all add: transfer_bank_transactions_def)
        with m p3 a have
          "posted (snd (transfer_bank_transactions py mm rem w)) = posted w @ auto @ manual"
          by simp
        with a m show ?thesis by (intro exI [of _ auto] exI [of _ manual]) simp
      qed
    qed
  qed
qed


lemma classify_rows:
  assumes cl: "classify py presets ledger bank = Inr tr_df" and i: "i < length bank"
  shows "b_amount (tr_df ! i) = b_amount (bank ! i)" "b_date (tr_df ! i) = b_date (bank ! i)"
    "flag (tr_df ! i) ''is_in_ml'' = in_ledger ledger (bank ! i)"
    "flag (tr_df ! i) ''has_preset'' =
       (\<exists>p\<in>set presets.
          is_preset_matched py
            (set_col (set_col (bank ! i) ''is_in_ml'' (BoolV (in_ledger ledger (bank ! i))))
               ''has_preset'' (BoolV False)) p = Inr True)"
proof -
  let ?df = "check_if_already_added ledger bank"
  from cl have ok: "compare_to_presets py presets ?df = Inr tr_df" by (simp add: classify_def)
  from i have il: "i < length ?df" by (simp add: check_if_already_added_map)
  from i have di: "?df ! i = set_col (bank ! i) ''is_in_ml'' (BoolV (in_ledger ledger (bank ! i)))"
    by (simp add: check_if_already_added_map)
  from compare_to_presets_keeps [OF ok il]
  show "b_amount (tr_df ! i) = b_amount (bank ! i)" "b_date (tr_df ! i) = b_date (bank ! i)"
    "flag (tr_df ! i) ''is_in_ml'' = in_ledger ledger (bank ! i)"
    unfolding di by (simp_all add: flag_def set_col_def)
  from compare_to_presets_flag [OF ok il]
  show "flag (tr_df ! i) ''has_preset'' =
       (\<exists>p\<in>set presets.
          is_preset_matched py
            (set_col (set_col (bank ! i) ''is_in_ml'' (BoolV (in_ledger ledger (bank ! i))))
               ''has_preset'' (BoolV False)) p = Inr True)"
    unfolding di .
qed

lemma classify_length:
  "classify py presets ledger bank = Inr tr_df \<Longrightarrow> length tr_df = length bank"
  by (simp add: classify_def compare_to_presets_length check_if_already_added_map)

text \<open>
  Claim C4. In a run of \<^verbatim>\<open>transfer_bank_transactions\<close> whose two passes return the
  table \<open>tr_df\<close>, the table has the rows of the statement, with their amounts and
  dates, and on every row
  \<^item> \<^verbatim>\<open>is_in_ml\<close> is the dedup mask of that row against the ledger;
  \<^item> \<^verbatim>\<open>has_preset\<close> tells whether some preset matches the row as the dedup pass
    left it, whatever its \<^verbatim>\<open>is_in_ml\<close> flag is; when no preset reads the two flag
    columns this is whether some preset matches the row of the statement, so the
    ledger has no part in it.

  The rows handed to the automatic transfer are exactly the rows with \<^verbatim>\<open>is_in_ml\<close>
  false and \<^verbatim>\<open>has_preset\<close> true, the rows handed to manual entry are exactly the
  rows with both flags false, each with its index in the table. Whatever the answers
  at the terminal and wherever the run ends, what it sends to the ledger is a list of
  payloads built from rows of the first selection followed by a list of payloads
  built from rows of the second: nothing is sent for a row with \<^verbatim>\<open>is_in_ml\<close> true.
  An automatic transfer that runs to its end sends one payload for every row of the
  first selection, in table order.
\<close>

theorem classification_partitions_rows:
  assumes led: "list_transactions rem = Inr ledger"
    and cl: "classify py (mm_presets mm) ledger (mm_bank mm) = Inr tr_df"
  shows
   "length tr_df = length (mm_bank mm) \<and>
    (\<forall>i<length (mm_bank mm).
       b_amount (tr_df ! i) = b_amount (mm_bank mm ! i) \<and>
       b_date (tr_df ! i) = b_date (mm_bank mm ! i) \<and>
       flag (tr_df ! i) ''is_in_ml'' = in_ledger ledger (mm_bank mm ! i) \<and>
       flag (tr_df ! i) ''has_preset'' =
         (\<exists>p\<in>set (mm_presets mm).
            is_preset_matched py
              (set_col (set_col (mm_bank mm ! i) ''is_in_ml''
                          (BoolV (in_ledger ledger (mm_bank mm ! i))))
                 ''has_preset'' (BoolV False)) p = Inr True) \<and>
       ((\<forall>p\<in>set (mm_presets mm). \<forall>c\<in>set (conditions p).
            fst c \<noteq> ''is_in_ml'' \<and> fst c \<noteq> ''has_preset'') \<longrightarrow>
          flag (tr_df ! i) ''has_preset'' =
            (\<exists>p\<in>set (mm_presets mm). is_preset_matched py (mm_bank mm ! i) p = Inr True))) \<and>
    (\<forall>x. x \<in> set (transactions_to_add tr_df) \<longleftrightarrow>
       fst x < length tr_df \<and> snd x = tr_df ! fst x \<and>
       \<not> flag (snd x) ''is_in_ml'' \<and> flag (snd x) ''has_preset'') \<and>
    (\<forall>x. x \<in> set (remaining_rows tr_df) \<longleftrightarrow>
       fst x < length tr_df \<and> snd x = tr_df ! fst x \<and>
       \<not> flag (snd x) ''is_in_ml'' \<and> \<not> flag (snd x) ''has_preset'') \<and>
    (\<exists>auto manual.
       posted (snd (transfer_bank_transactions py mm rem w)) = posted w @ auto @ manual \<and>
       (\<forall>p\<in>set auto. \<exists>x\<in>set (transactions_to_add tr_df). from_row mm (snd x) p) \<and>
       (\<forall>p\<in>set manual. \<exists>x\<in>set (remaining_rows tr_df). from_row mm (snd x) p)) \<and>
    (\<exists>ps. posted (snd (transfer_from_presets mm rem (transactions_to_add tr_df) w1)) =
             posted w1 @ ps \<and>
          (fst (transfer_from_presets mm rem (transactions_to_add tr_df) w1) = Inr () \<longrightarrow>
             list_all2 (\<lambda>x p. from_row mm (snd x) p) (transactions_to_add tr_df) ps))"
proof (intro conjI allI impI)
  show "length tr_df = length (mm_bank mm)" using cl by (rule classify_length)
next
  fix i assume i: "i < length (mm_bank mm)"
  from classify_rows [OF cl i]
  show "b_amount (tr_df ! i) = b_amount (mm_bank mm ! i)"
    "b_date (tr_df ! i) = b_date (mm_bank mm ! i)"
    "flag (tr_df ! i) ''is_in_ml'' = in_ledger ledger (mm_bank mm ! i)"
    "flag (tr_df ! i) ''has_preset'' =
         (\<exists>p\<in>set (mm_presets mm).
            is_preset_matched py
              (set_col (set_col (mm_bank mm ! i) ''is_in_ml''
                          (BoolV (in_ledger ledger (mm_bank mm ! i))))
                 ''has_preset'' (BoolV False)) p = Inr True)"
    by blast+
next
  fix i
  assume i: "i < length (mm_bank mm)"
    and cols: "\<forall>p\<in>set (mm_presets mm). \<forall>c\<in>set (conditions p).
            fst c \<noteq> ''is_in_ml'' \<and> fst c \<noteq> ''has_preset''"
  have "\<And>p v v'. p \<in> set (mm_presets mm) \<Longrightarrow>
      is_preset_matched py (set_col (set_col (mm_bank mm ! i) ''is_in_ml'' v) ''has_preset'' v') p =
      is_preset_matched py (mm_bank mm ! i) p"
    using cols by (intro is_preset_matched_flags) blast
  with classify_rows(4) [OF cl i]
  show "flag (tr_df ! i) ''has_preset'' =
            (\<exists>p\<in>set (mm_presets mm). is_preset_matched py (mm_bank mm ! i) p = Inr True)"
    by simp
next
  fix x
  show "x \<in> set (transactions_to_add tr_df) \<longleftrightarrow>
       fst x < length tr_df \<and> snd x = tr_df ! fst x \<and>
       \<not> flag (snd x) ''is_in_ml'' \<and> flag (snd x) ''has_preset''"
    by (rule in_transactions_to_add)
next
  fix x
  show "x \<in> set (remaining_rows tr_df) \<longleftrightarrow>
       fst x < length tr_df \<and> snd x = tr_df ! fst x \<and>
       \<not> flag (snd x) ''is_in_ml'' \<and> \<not> flag (snd x) ''has_preset''"
    by (rule in_remaining_rows)
next
  show "\<exists>auto manual.
       posted (snd (transfer_bank_transactions py mm rem w)) = posted w @ auto @ manual \<and>
       (\<forall>p\<in>set auto. \<exists>x\<in>set (transactions_to_add tr_df). from_row mm (snd x) p) \<and>
       (\<forall>p\<in>set manual. \<exists>x\<in>set (remaining_rows tr_df). from_row mm (snd x) p)"
    using led cl by (rule transfer_bank_transactions_posts)
next
  from transfer_from_presets_posts [of mm rem "transactions_to_add tr_df" w1]
  show "\<exists>ps. posted (snd (transfer_from_presets mm rem (transactions_to_add tr_df) w1)) =
             posted w1 @ ps \<and>
          (fst (transfer_from_presets mm rem (transactions_to_add tr_df) w1) = Inr () \<longrightarrow>
             list_all2 (\<lambda>x p. from_row mm (snd x) p) (transactions_to_add tr_df) ps)"
    by blast
qed

text \<open>
  A run on the sample statement. The first row is flagged as already in the ledger
  (by the amount of one entry and the date of another) and also has a preset; the
  second row only has a preset; the third has neither. With \<^verbatim>\<open>y\<close> at both prompts
  the second row is sent from its preset and the third from the terminal; the first
  is not sent.
\<close>

theorem classification_partitions_rows_witness:
  "(\<exists>tr_df.
      classify sample_py (mm_presets statement_mm) [same_amount_row, same_date_row]
        (mm_bank statement_mm) = Inr tr_df \<and>
      map (\<lambda>r. (flag r ''is_in_ml'', flag r ''has_preset'')) tr_df =
        [(True, True), (False, True), (False, False)] \<and>
      map fst (transactions_to_add tr_df) = [1] \<and>
      map fst (remaining_rows tr_df) = [2]) \<and>
   map p_amount (posted (snd (transfer_bank_transactions sample_py statement_mm ledger_remote
     (quiet_world [''y'', ''y'', ''e'', ''0'', [], ''rent''])))) = [FltV (-3), FltV (-900)] \<and>
   map b_amount (mm_bank statement_mm) = [FltV (-25/2), FltV (-3), FltV (-900)]"
proof -
  let ?L = "[same_amount_row, same_date_row]"
  let ?B = "mm_bank statement_mm" and ?P = "mm_presets statement_mm"
  have led: "list_transactions ledger_remote = Inr ?L" by (simp add: ledger_remote_def)
  have "\<forall>p\<in>set ?P. \<forall>(column, pattern)\<in>set (conditions p).
      \<forall>s. \<not> isl (re_match_ic sample_py pattern s)"
    by (simp add: sample_py_def literal_match_ic_def)
  then have "\<exists>rows. compare_to_presets sample_py ?P (check_if_already_added ?L ?B) = Inr rows"
    by (rule compare_to_presets_total)
  then obtain tr_df where cl: "classify sample_py ?P ?L ?B = Inr tr_df"
    by (auto simp: classify_def)
  note T = classification_partitions_rows [OF led cl]
  have len: "length tr_df = 3"
    using T [THEN conjunct1] by (simp add: statement_mm_def)
  have lb: "length ?B = 3" by (simp add: statement_mm_def)
  have cols: "\<forall>p\<in>set ?P. \<forall>c\<in>set (conditions p).
      fst c \<noteq> ''is_in_ml'' \<and> fst c \<noteq> ''has_preset''"
    by code_simp
  note R = T [THEN conjunct2, THEN conjunct1, rule_format]
  have rows:
    "flag (tr_df ! i) ''is_in_ml'' = in_ledger ?L (?B ! i) \<and>
     flag (tr_df ! i) ''has_preset'' =
       (\<exists>p\<in>set ?P. is_preset_matched sample_py (?B ! i) p = Inr True)" if "i < 3" for i
  proof -
    from that lb have i: "i < length ?B" by simp
    note Ri = R [OF i, THEN conjunct2, THEN conjunct2]
    from Ri [THEN conjunct1] Ri [THEN conjunct2, THEN conjunct2, THEN mp, OF cols]
    show ?thesis by (rule conjI)
  qed
  have l0: "in_ledger ?L (?B ! 0)" by code_simp
  have l1: "\<not> in_ledger ?L (?B ! 1)" by code_simp
  have l2: "\<not> in_ledger ?L (?B ! 2)" by code_simp
  have p0: "\<exists>p\<in>set ?P. is_preset_matched sample_py (?B ! 0) p = Inr True" by code_simp
  have p1: "\<exists>p\<in>set ?P. is_preset_matched sample_py (?B ! 1) p = Inr True" by code_simp
  have p2: "\<not> (\<exists>p\<in>set ?P. is_preset_matched sample_py (?B ! 2) p = Inr True)" by code_simp
  have f0: "flag (tr_df ! 0) ''is_in_ml''" "flag (tr_df ! 0) ''has_preset''"
    using rows [of 0] l0 p0 by simp_all
  have f1: "\<not> flag (tr_df ! 1) ''is_in_ml''" "flag (tr_df ! 1) ''has_preset''"
    using rows [of 1] l1 p1 by simp_all
  have f2: "\<not> flag (tr_df ! 2) ''is_in_ml''" "\<not> flag (tr_df ! 2) ''has_preset''"
    using rows [of 2] l2 p2 by simp_all
  from len obtain a b c where abc: "tr_df = [a, b, c]"
    by (auto simp: length_Suc_conv numeral_3_eq_3)
  from f0 f1 f2 have fl:
    "flag a ''is_in_ml''" "flag a ''has_preset''"
    "\<not> flag b ''is_in_ml''" "flag b ''has_preset''"
    "\<not> flag c ''is_in_ml''" "\<not> flag c ''has_preset''"
    by (simp_all add: abc)
  have m: "map (\<lambda>r. (flag r ''is_in_ml'', flag r ''has_preset'')) tr_df =
        [(True, True), (False, True), (False, False)]"
    using fl by (simp add: abc)
  have ta: "map fst (transactions_to_add tr_df) = [1]"
    using fl by (simp add: abc transactions_to_add_def enumerate_eq_zip upt_rec)
  have rr: "map fst (remaining_rows tr_df) = [2]"
    using fl by (simp add: abc remaining_rows_def enumerate_eq_zip upt_rec)
  have run: "map p_amount (posted (snd (transfer_bank_transactions sample_py statement_mm ledger_remote
     (quiet_world [''y'', ''y'', ''e'', ''0'', [], ''rent''])))) = [FltV (-3), FltV (-900)]"
    by code_simp
  have am: "map b_amount (mm_bank statement_mm) = [FltV (-25/2), FltV (-3), FltV (-900)]"
    by (simp add: statement_mm_def coffee_later_def rent_row_def coffee_row_def)
  from cl m ta rr have ex: "\<exists>tr_df.
      classify sample_py ?P ?L ?B = Inr tr_df \<and>
      map (\<lambda>r. (flag r ''is_in_ml'', flag r ''has_preset'')) tr_df =
        [(True, True), (False, True), (False, False)] \<and>
      map fst (transactions_to_add tr_df) = [1] \<and>
      map fst (remaining_rows tr_df) = [2]"
    by (intro exI [of _ tr_df] conjI)
  from ex run am show ?thesis by (intro conjI)
qed

end
